theory Spec2Isabelle
  imports Complex_Main
begin

section \<open>JavaScript values as the dashboard receives them\<close>

text \<open>
  The parsers of \<^verbatim>\<open>SafetyDashboard.tsx\<close> take \<^verbatim>\<open>json: any\<close>: whatever
  \<^verbatim>\<open>res.json()\<close> produced, or \<^verbatim>\<open>undefined\<close>. A value is therefore one of the JSON
  forms or \<^verbatim>\<open>undefined\<close>. An object is the list of its own properties (keys distinct,
  as \<^verbatim>\<open>JSON.parse\<close> leaves them). Numbers are exact reals: rounding and the infinities of
  IEEE doubles are outside the model; \<^verbatim>\<open>NaN\<close>, which \<^verbatim>\<open>Number(..)\<close> can produce,
  is a value of the result type \<open>jsnum\<close>.
\<close>

datatype json =
    JUndef
  | JNull
  | JBool bool
  | JNum real
  | JStr string
  | JArr "json list"
  | JObj "(string \<times> json) list"

datatype jsnum = NaN | Num real

text \<open>A thrown value: an \<^verbatim>\<open>Error\<close> with its message, or a value with no \<^verbatim>\<open>message\<close>.\<close>

datatype exn = Error string | Other

text \<open>Truthiness, as \<^verbatim>\<open>!x\<close>, \<^verbatim>\<open>x || y\<close> and \<^verbatim>\<open>if (x)\<close> test it.\<close>

fun truthy :: "json \<Rightarrow> bool" where
  "truthy JUndef = False"
| "truthy JNull = False"
| "truthy (JBool b) = b"
| "truthy (JNum n) = (n \<noteq> 0)"
| "truthy (JStr s) = (s \<noteq> [])"
| "truthy (JArr xs) = True"
| "truthy (JObj kvs) = True"

fun truthy_num :: "jsnum \<Rightarrow> bool" where
  "truthy_num NaN = False"
| "truthy_num (Num n) = (n \<noteq> 0)"

fun nullish :: "json \<Rightarrow> bool" where
  "nullish JUndef = True"
| "nullish JNull = True"
| "nullish v = False"

text \<open>\<^verbatim>\<open>a || b\<close>\<close>

definition or_else :: "json \<Rightarrow> json \<Rightarrow> json" where
  "or_else a b = (if truthy a then a else b)"

text \<open>
  \<^verbatim>\<open>v.k\<close> for a value that is not null or undefined, and a key \<open>k\<close> among those the
  dashboard reads (\<^verbatim>\<open>error, labels, datasets, data, label, x_labels, y_labels, values,
  min, max, title, content\<close>). Only an object has such a property of its own. Of these
  names the prototypes define one, \<^verbatim>\<open>Array.prototype.values\<close>, a function, which the
  only reader (\<^verbatim>\<open>Array.isArray(json.values)\<close>) treats like \<^verbatim>\<open>undefined\<close>.
\<close>

fun get_prop :: "json \<Rightarrow> string \<Rightarrow> json" where
  "get_prop (JObj kvs) k = (case map_of kvs k of Some v \<Rightarrow> v | None \<Rightarrow> JUndef)"
| "get_prop v k = JUndef"

text \<open>\<^verbatim>\<open>v?.k\<close>\<close>

definition opt_prop :: "json \<Rightarrow> string \<Rightarrow> json" where
  "opt_prop v k = (if nullish v then JUndef else get_prop v k)"

text \<open>The decimal name of an index, the key under which an object holds \<^verbatim>\<open>v[i]\<close>.\<close>

definition digit :: "nat \<Rightarrow> char" where
  "digit d = char_of (48 + d)"

fun dec :: "nat \<Rightarrow> string" where
  "dec n = (if n < 10 then [digit n] else dec (n div 10) @ [digit (n mod 10)])"

text \<open>\<^verbatim>\<open>v[i]\<close> for a value that is not null or undefined.\<close>

fun elem :: "json \<Rightarrow> nat \<Rightarrow> json" where
  "elem (JArr xs) i = (if i < length xs then xs ! i else JUndef)"
| "elem (JStr s) i = (if i < length s then JStr [s ! i] else JUndef)"
| "elem (JObj kvs) i = (case map_of kvs (dec i) of Some v \<Rightarrow> v | None \<Rightarrow> JUndef)"
| "elem v i = JUndef"

text \<open>\<^verbatim>\<open>v?.[i]\<close>\<close>

definition opt_elem :: "json \<Rightarrow> nat \<Rightarrow> json" where
  "opt_elem v i = (if nullish v then JUndef else elem v i)"

text \<open>
  \<^verbatim>\<open>Number(v)\<close>. On \<^verbatim>\<open>undefined\<close>, \<^verbatim>\<open>null\<close>, booleans and numbers the language fixes
  the result. On strings, arrays and objects it is the runtime's string-to-number
  conversion, which is taken as the parameter \<open>coerce\<close>.
\<close>

fun Number :: "(json \<Rightarrow> jsnum) \<Rightarrow> json \<Rightarrow> jsnum" where
  "Number coerce JUndef = NaN"
| "Number coerce JNull = Num 0"
| "Number coerce (JBool b) = Num (if b then 1 else 0)"
| "Number coerce (JNum n) = Num n"
| "Number coerce v = coerce v"

text \<open>
  \<^verbatim>\<open>String(v)\<close>, also the conversion of a computed property key. The rendering of
  numbers, arrays and objects is the runtime's, the parameter \<open>render\<close>.
\<close>

fun String :: "(json \<Rightarrow> string) \<Rightarrow> json \<Rightarrow> string" where
  "String render (JStr s) = s"
| "String render JUndef = ''undefined''"
| "String render JNull = ''null''"
| "String render (JBool b) = (if b then ''true'' else ''false'')"
| "String render v = render v"

text \<open>\<^verbatim>\<open>a + b\<close> on numbers, and the two-argument steps of \<^verbatim>\<open>Math.min\<close> and \<^verbatim>\<open>Math.max\<close>.\<close>

fun js_add :: "jsnum \<Rightarrow> jsnum \<Rightarrow> jsnum" where
  "js_add (Num a) (Num b) = Num (a + b)"
| "js_add a b = NaN"

fun js_min2 :: "jsnum \<Rightarrow> jsnum \<Rightarrow> jsnum" where
  "js_min2 (Num a) (Num b) = Num (min a b)"
| "js_min2 a b = NaN"

fun js_max2 :: "jsnum \<Rightarrow> jsnum \<Rightarrow> jsnum" where
  "js_max2 (Num a) (Num b) = Num (max a b)"
| "js_max2 a b = NaN"

text \<open>
  \<^verbatim>\<open>Math.min(...flat)\<close> and \<^verbatim>\<open>Math.max(...flat)\<close> for a non-empty \<^verbatim>\<open>flat\<close>, given as
  its first element and the rest. The source calls them under \<^verbatim>\<open>if (flat.length)\<close> only.
\<close>

definition Math_min :: "jsnum \<Rightarrow> jsnum list \<Rightarrow> jsnum" where
  "Math_min v vs = fold js_min2 vs v"

definition Math_max :: "jsnum \<Rightarrow> jsnum list \<Rightarrow> jsnum" where
  "Math_max v vs = fold js_max2 vs v"

text \<open>
  \<^verbatim>\<open>s.toLowerCase()\<close> on the code points a \<open>char\<close> holds (U+0000 to U+00FF): the
  letters A to Z and the capital letters of Latin-1 (U+00C0 to U+00DE without the
  multiplication sign U+00D7) move up by 32.
\<close>

definition to_lower :: "char \<Rightarrow> char" where
  "to_lower c =
     (let n = (of_char c :: nat)
      in if (65 \<le> n \<and> n \<le> 90) \<or> (192 \<le> n \<and> n \<le> 222 \<and> n \<noteq> 215) then char_of (n + 32) else c)"

definition toLowerCase :: "string \<Rightarrow> string" where
  "toLowerCase s = map to_lower s"

text \<open>\<^verbatim>\<open>xs.map(f)\<close> with a callback that may throw: the first throw ends the loop.\<close>

primrec map_throwing :: "('a \<Rightarrow> exn + 'b) \<Rightarrow> 'a list \<Rightarrow> exn + 'b list" where
  "map_throwing f [] = Inr []"
| "map_throwing f (x # xs) =
     (case f x of
        Inl e \<Rightarrow> Inl e
      | Inr y \<Rightarrow> (case map_throwing f xs of Inl e \<Rightarrow> Inl e | Inr ys \<Rightarrow> Inr (y # ys)))"

text \<open>The elements of an array with their indices, as a \<^verbatim>\<open>map\<close> callback receives them.\<close>

definition indexed :: "'a list \<Rightarrow> ('a \<times> nat) list" where
  "indexed xs = zip xs [0..<length xs]"

section \<open>Canonical chart models and the normalizers\<close>

record SimpleDatum =
  name :: json
  value_s :: jsnum

record TrendDatum =
  month :: string
  value_t :: jsnum

text \<open>
  A \<^verbatim>\<open>GroupDatum\<close> is an object with the key \<^verbatim>\<open>name\<close> and one key for each series:
  its properties, each key once, in the order of their first assignment, with the
  label or a number as value. \<^verbatim>\<open>row[key] = v\<close> replaces the value of a key that is
  present and adds the key otherwise.
\<close>

datatype gval = GLabel json | GNum jsnum

type_synonym GroupDatum = "(string \<times> gval) list"

fun assign :: "string \<Rightarrow> gval \<Rightarrow> GroupDatum \<Rightarrow> GroupDatum" where
  "assign k v [] = [(k, v)]"
| "assign k v ((k', v') # row) = (if k' = k then (k, v) # row else (k', v') # assign k v row)"

record HeatMatrix =
  x_labels :: "string list"
  y_labels :: "string list"
  values_hm :: "jsnum list list"
  min_hm :: jsnum
  max_hm :: jsnum
  title :: "string option"

record KPI =
  label :: string
  value_k :: jsnum
  delta :: "real option"

text \<open>\<^verbatim>\<open>if (!json || json.error)\<close>, the guard at the head of each parser.\<close>

definition absent_or_error :: "json \<Rightarrow> bool" where
  "absent_or_error j = (\<not> truthy j \<or> truthy (get_prop j ''error''))"

definition parseCategoryChart :: "(json \<Rightarrow> jsnum) \<Rightarrow> json \<Rightarrow> exn + SimpleDatum list" where
  "parseCategoryChart coerce j =
     (if absent_or_error j then Inr []
      else
        let labels = or_else (get_prop j ''labels'') (JArr []);
            data = or_else (opt_prop (opt_elem (get_prop j ''datasets'') 0) ''data'') (JArr [])
        in case labels of
             JArr ls \<Rightarrow>
               Inr (map (\<lambda>(nm, i). \<lparr>name = nm, value_s = Number coerce (or_else (elem data i) (JNum 0))\<rparr>)
                        (indexed ls))
           | _ \<Rightarrow> Inl (Error ''labels.map is not a function''))"

text \<open>
  The body of \<^verbatim>\<open>datasets.forEach((ds) => ...)\<close> in \<^verbatim>\<open>parseStackedChart\<close>, for the row
  of index \<open>i\<close>: reading \<^verbatim>\<open>ds.label\<close> of \<^verbatim>\<open>null\<close> or \<^verbatim>\<open>undefined\<close> throws.
\<close>

fun stack_row :: "(json \<Rightarrow> jsnum) \<Rightarrow> (json \<Rightarrow> string) \<Rightarrow> nat \<Rightarrow> json list \<Rightarrow> GroupDatum \<Rightarrow> exn + GroupDatum" where
  "stack_row coerce render i [] row = Inr row"
| "stack_row coerce render i (ds # dss) row =
     (if nullish ds then Inl (Error ''Cannot read properties of null or undefined'')
      else
        let key = String render (or_else (get_prop ds ''label'') (JStr ''series''))
        in stack_row coerce render i dss
             (assign key (GNum (Number coerce (or_else (opt_elem (get_prop ds ''data'') i) (JNum 0)))) row))"

definition parseStackedChart :: "(json \<Rightarrow> jsnum) \<Rightarrow> (json \<Rightarrow> string) \<Rightarrow> json \<Rightarrow> exn + GroupDatum list" where
  "parseStackedChart coerce render j =
     (if absent_or_error j then Inr []
      else
        let labels = or_else (get_prop j ''labels'') (JArr []);
            datasets = or_else (get_prop j ''datasets'') (JArr [])
        in case labels of
             JArr ls \<Rightarrow>
               map_throwing
                 (\<lambda>(nm, i). case datasets of
                      JArr dss \<Rightarrow> stack_row coerce render i dss [(''name'', GLabel nm)]
                    | _ \<Rightarrow> Inl (Error ''datasets.forEach is not a function''))
                 (indexed ls)
           | _ \<Rightarrow> Inl (Error ''labels.map is not a function''))"

text \<open>\<^verbatim>\<open>datasets.reduce((sum, ds) => sum + Number(ds.data?.[i] || 0), 0)\<close>\<close>

fun trend_total :: "(json \<Rightarrow> jsnum) \<Rightarrow> nat \<Rightarrow> json list \<Rightarrow> jsnum \<Rightarrow> exn + jsnum" where
  "trend_total coerce i [] acc = Inr acc"
| "trend_total coerce i (ds # dss) acc =
     (if nullish ds then Inl (Error ''Cannot read properties of null or undefined'')
      else trend_total coerce i dss
             (js_add acc (Number coerce (or_else (opt_elem (get_prop ds ''data'') i) (JNum 0)))))"

definition parseMonthlyTrends :: "(json \<Rightarrow> jsnum) \<Rightarrow> (json \<Rightarrow> string) \<Rightarrow> json \<Rightarrow> exn + TrendDatum list" where
  "parseMonthlyTrends coerce render j =
     (if absent_or_error j then Inr []
      else
        let labels = or_else (get_prop j ''labels'') (JArr []);
            datasets = or_else (get_prop j ''datasets'') (JArr [])
        in case labels of
             JArr ls \<Rightarrow>
               map_throwing
                 (\<lambda>(m, i). case datasets of
                      JArr dss \<Rightarrow>
                        (case trend_total coerce i dss (Num 0) of
                           Inl e \<Rightarrow> Inl e
                         | Inr tot \<Rightarrow> Inr \<lparr>month = String render m, value_t = tot\<rparr>)
                    | _ \<Rightarrow> Inl (Error ''datasets.reduce is not a function''))
                 (indexed ls)
           | _ \<Rightarrow> Inl (Error ''labels.map is not a function''))"

text \<open>\<^verbatim>\<open>Array.isArray(v) ? v : []\<close>\<close>

fun array_or_empty :: "json \<Rightarrow> json list" where
  "array_or_empty (JArr xs) = xs"
| "array_or_empty v = []"

text \<open>\<^verbatim>\<open>typeof v === "number" ? v : 0\<close>\<close>

fun number_or_zero :: "json \<Rightarrow> jsnum" where
  "number_or_zero (JNum n) = Num n"
| "number_or_zero v = Num 0"

text \<open>\<^verbatim>\<open>typeof v === "string" ? v : undefined\<close>\<close>

fun string_or_undefined :: "json \<Rightarrow> string option" where
  "string_or_undefined (JStr s) = Some s"
| "string_or_undefined v = None"

definition parseHeatmap :: "(json \<Rightarrow> jsnum) \<Rightarrow> (json \<Rightarrow> string) \<Rightarrow> json \<Rightarrow> HeatMatrix" where
  "parseHeatmap coerce render j =
     (if absent_or_error j then
        \<lparr>x_labels = [], y_labels = [], values_hm = [], min_hm = Num 0, max_hm = Num 0, title = None\<rparr>
      else
        let x = map (String render) (array_or_empty (get_prop j ''x_labels''));
            y = map (String render) (array_or_empty (get_prop j ''y_labels''));
            valsRaw = array_or_empty (get_prop j ''values'');
            vals = map (\<lambda>row. map (\<lambda>v. Number coerce (or_else v (JNum 0))) (array_or_empty row)) valsRaw;
            min0 = number_or_zero (get_prop j ''min'');
            max0 = number_or_zero (get_prop j ''max'');
            (mn, mx) =
              (if \<not> truthy (get_prop j ''min'') \<or> \<not> truthy (get_prop j ''max'') then
                 (case concat vals of
                    [] \<Rightarrow> (min0, max0)
                  | v # vs \<Rightarrow> (Math_min v (v # vs), Math_max v (v # vs)))
               else (min0, max0))
        in \<lparr>x_labels = x, y_labels = y, values_hm = vals, min_hm = mn, max_hm = mx,
            title = string_or_undefined (get_prop j ''title'')\<rparr>)"

section \<open>Resource slots and the refresh cycle\<close>

record 'a ApiState =
  loading :: bool
  error :: "string option"
  data :: "'a option"

text \<open>One identifier for each \<^verbatim>\<open>useState<ApiState<..>>\<close> cell of \<^verbatim>\<open>SafetyDashboard\<close>.\<close>

datatype slot_id =
    Kpis
  | EntriesByCategory
  | IncidentHazardTypes
  | MonthlyTrends
  | EntriesByLocation
  | StackedEntriesByLocation
  | TypesByLocation
  | ProportionByLocation
  | StatusByLocation
  | Heatmap
  | IncidentsTypes
  | IncidentsTopLocations
  | HazardsMonthly
  | HazardsByLocation
  | HazardsByRisk
  | HazardsByArea
  | HazardsHeatmap
  | HazVsIncByDept

text \<open>What a slot holds: the \<^verbatim>\<open>T\<close> of its \<^verbatim>\<open>ApiState<T>\<close>.\<close>

datatype payload =
    PKpi "KPI list"
  | PSimple "SimpleDatum list"
  | PTrend "TrendDatum list"
  | PGroup "GroupDatum list"
  | PHeat HeatMatrix

text \<open>
  The component state the cycle writes: the slots, \<^verbatim>\<open>lastUpdated\<close> (a timestamp) and
  the notifications sent with \<^verbatim>\<open>toast.error\<close> (title and description).
\<close>

record dashboard =
  slots :: "slot_id \<Rightarrow> payload ApiState"
  lastUpdated :: "nat option"
  toasts :: "(string \<times> string) list"

text \<open>Every \<^verbatim>\<open>useState\<close> starts as \<^verbatim>\<open>{ loading: true, error: null, data: null }\<close>.\<close>

definition initial :: dashboard where
  "initial = \<lparr>slots = (\<lambda>k. \<lparr>loading = True, error = None, data = None\<rparr>), lastUpdated = None, toasts = []\<rparr>"

text \<open>\<^verbatim>\<open>setX(f)\<close> with an updater function; \<^verbatim>\<open>setX(v)\<close> is the constant updater.\<close>

definition set_slot :: "slot_id \<Rightarrow> (payload ApiState \<Rightarrow> payload ApiState) \<Rightarrow> dashboard \<Rightarrow> dashboard" where
  "set_slot k f st = st\<lparr>slots := (slots st)(k := f (slots st k))\<rparr>"

text \<open>
  Lines 202 to 215: the slots that \<^verbatim>\<open>refreshAll\<close> sets to
  \<^verbatim>\<open>{ ...s, loading: true, error: null }\<close> before the requests are issued.
\<close>

definition loading_slots :: "slot_id list" where
  "loading_slots =
     [Kpis, EntriesByCategory, IncidentHazardTypes, MonthlyTrends, EntriesByLocation,
      StackedEntriesByLocation, TypesByLocation, ProportionByLocation, StatusByLocation, Heatmap,
      IncidentsTypes, IncidentsTopLocations, HazardsMonthly, HazardsByLocation]"

definition mark_loading :: "dashboard \<Rightarrow> dashboard" where
  "mark_loading st = fold (\<lambda>k. set_slot k (\<lambda>s. s\<lparr>loading := True, error := None\<rparr>)) loading_slots st"

text \<open>
  \<^verbatim>\<open>Promise.all\<close>. Each request settles at some instant, fulfilled with the parsed body
  or rejected with a thrown value. The combined promise rejects with the reason of the
  earliest rejection (the first in request order among equally early ones), and is
  fulfilled with all values in request order when none rejects.
\<close>

type_synonym outcome = "nat \<times> (exn + json)"

fun earliest_rejection :: "outcome list \<Rightarrow> (nat \<times> exn) option \<Rightarrow> (nat \<times> exn) option" where
  "earliest_rejection [] best = best"
| "earliest_rejection ((t, Inr v) # os) best = earliest_rejection os best"
| "earliest_rejection ((t, Inl e) # os) None = earliest_rejection os (Some (t, e))"
| "earliest_rejection ((t, Inl e) # os) (Some (t0, e0)) =
     earliest_rejection os (if t < t0 then Some (t, e) else Some (t0, e0))"

fun fulfilled_values :: "outcome list \<Rightarrow> json list" where
  "fulfilled_values [] = []"
| "fulfilled_values ((t, Inr v) # os) = v # fulfilled_values os"
| "fulfilled_values ((t, Inl e) # os) = fulfilled_values os"

definition Promise_all :: "outcome list \<Rightarrow> exn + json list" where
  "Promise_all os =
     (case earliest_rejection os None of
        Some (t, e) \<Rightarrow> Inl e
      | None \<Rightarrow> Inr (fulfilled_values os))"

text \<open>Array destructuring: a position past the end of the array binds \<^verbatim>\<open>undefined\<close>.\<close>

definition destructure :: "json list \<Rightarrow> nat \<Rightarrow> json" where
  "destructure rs i = (if i < length rs then rs ! i else JUndef)"

text \<open>
  Lines 221 to 278: the seventeen resources in request order, each with the slot it
  fills and the normalizer applied to its body.
\<close>

datatype shape = Category | Stacked | Trend | HeatShape

definition resources :: "(slot_id \<times> shape) list" where
  "resources =
     [(EntriesByCategory, Category), (IncidentHazardTypes, Category), (MonthlyTrends, Trend),
      (EntriesByLocation, Category), (StackedEntriesByLocation, Stacked), (TypesByLocation, Stacked),
      (ProportionByLocation, Category), (StatusByLocation, Stacked), (Heatmap, HeatShape),
      (IncidentsTypes, Category), (IncidentsTopLocations, Category), (HazardsMonthly, Trend),
      (HazardsByLocation, Category), (HazardsByRisk, Category), (HazardsByArea, Category),
      (HazardsHeatmap, HeatShape), (HazVsIncByDept, Stacked)]"

fun parse_as :: "(json \<Rightarrow> jsnum) \<Rightarrow> (json \<Rightarrow> string) \<Rightarrow> shape \<Rightarrow> json \<Rightarrow> exn + payload" where
  "parse_as coerce render Category j = map_sum id PSimple (parseCategoryChart coerce j)"
| "parse_as coerce render Stacked j = map_sum id PGroup (parseStackedChart coerce render j)"
| "parse_as coerce render Trend j = map_sum id PTrend (parseMonthlyTrends coerce render j)"
| "parse_as coerce render HeatShape j = Inr (PHeat (parseHeatmap coerce render j))"

text \<open>Lines 242 to 259: the parses run in order; the first throw leaves the \<^verbatim>\<open>try\<close> block.\<close>

definition parse_all :: "(json \<Rightarrow> jsnum) \<Rightarrow> (json \<Rightarrow> string) \<Rightarrow> json list \<Rightarrow> exn + (slot_id \<times> payload) list" where
  "parse_all coerce render rs =
     map_throwing
       (\<lambda>((k, sh), i). map_sum id (\<lambda>p. (k, p)) (parse_as coerce render sh (destructure rs i)))
       (indexed resources)"

text \<open>
  \<^verbatim>\<open>byCat?.find((d) => d.name?.toLowerCase() === key)\<close>: a name that is null or
  undefined compares unequal, a string is compared in lower case, and on any other
  value \<^verbatim>\<open>toLowerCase\<close> is not a function.
\<close>

fun find_named :: "string \<Rightarrow> SimpleDatum list \<Rightarrow> exn + SimpleDatum option" where
  "find_named key [] = Inr None"
| "find_named key (d # ds) =
     (case name d of
        JStr s \<Rightarrow> if toLowerCase s = key then Inr (Some d) else find_named key ds
      | JUndef \<Rightarrow> find_named key ds
      | JNull \<Rightarrow> find_named key ds
      | _ \<Rightarrow> Inl (Error ''d.name?.toLowerCase is not a function''))"

text \<open>\<^verbatim>\<open>(byCat?.find(..)?.value || 0)\<close>\<close>

definition kpi_total :: "string \<Rightarrow> SimpleDatum list \<Rightarrow> exn + jsnum" where
  "kpi_total key byCat =
     (case find_named key byCat of
        Inl e \<Rightarrow> Inl e
      | Inr None \<Rightarrow> Inr (Num 0)
      | Inr (Some d) \<Rightarrow> Inr (if truthy_num (value_s d) then value_s d else Num 0))"

text \<open>Lines 281 to 291: the four totals are computed in order, then the KPI list is built.\<close>

definition compose_kpis :: "SimpleDatum list \<Rightarrow> exn + KPI list" where
  "compose_kpis byCat =
     (case kpi_total ''incidents'' byCat of Inl e \<Rightarrow> Inl e | Inr totalIncidents \<Rightarrow>
     (case kpi_total ''hazards'' byCat of Inl e \<Rightarrow> Inl e | Inr totalHazards \<Rightarrow>
     (case kpi_total ''audits'' byCat of Inl e \<Rightarrow> Inl e | Inr totalAudits \<Rightarrow>
     (case kpi_total ''inspections'' byCat of Inl e \<Rightarrow> Inl e | Inr totalInspections \<Rightarrow>
        Inr [\<lparr>label = ''Incidents'', value_k = totalIncidents, delta = None\<rparr>,
             \<lparr>label = ''Hazards'', value_k = totalHazards, delta = None\<rparr>,
             \<lparr>label = ''Audits'', value_k = totalAudits, delta = None\<rparr>,
             \<lparr>label = ''Inspections'', value_k = totalInspections, delta = None\<rparr>]))))"

text \<open>\<^verbatim>\<open>setX({ loading: false, error: null, data: v })\<close>\<close>

definition commit :: "slot_id \<times> payload \<Rightarrow> dashboard \<Rightarrow> dashboard" where
  "commit kp st = set_slot (fst kp) (\<lambda>s. \<lparr>loading = False, error = None, data = Some (snd kp)\<rparr>) st"

text \<open>
  Lines 242 to 293, the \<^verbatim>\<open>try\<close> block after the \<^verbatim>\<open>await\<close>: the state it reaches and
  the value thrown, if any. \<open>byCat\<close> is the parse of the first body, which has
  succeeded when the commits are reached.
\<close>

definition try_block :: "(json \<Rightarrow> jsnum) \<Rightarrow> (json \<Rightarrow> string) \<Rightarrow> nat \<Rightarrow> json list \<Rightarrow> dashboard \<Rightarrow> dashboard \<times> exn option" where
  "try_block coerce render now rs st =
     (case parse_all coerce render rs of
        Inl e \<Rightarrow> (st, Some e)
      | Inr parsed \<Rightarrow>
          let st1 = fold commit parsed st;
              byCat = (case parseCategoryChart coerce (destructure rs 0) of Inr ds \<Rightarrow> ds | Inl e \<Rightarrow> [])
          in (case compose_kpis byCat of
                Inl e \<Rightarrow> (st1, Some e)
              | Inr kpiData \<Rightarrow> ((commit (Kpis, PKpi kpiData) st1)\<lparr>lastUpdated := Some now\<rparr>, None)))"

text \<open>\<^verbatim>\<open>e?.message || fallback\<close>\<close>

fun message_or :: "exn \<Rightarrow> string \<Rightarrow> string" where
  "message_or (Error m) fallback = (if m \<noteq> [] then m else fallback)"
| "message_or Other fallback = fallback"

text \<open>Lines 297 to 314: the slots the \<^verbatim>\<open>catch\<close> block updates, in order.\<close>

definition failure_slots :: "slot_id list" where
  "failure_slots =
     [EntriesByCategory, IncidentHazardTypes, MonthlyTrends, EntriesByLocation,
      StackedEntriesByLocation, TypesByLocation, ProportionByLocation, StatusByLocation, Heatmap,
      IncidentsTypes, IncidentsTopLocations, HazardsMonthly, HazardsByLocation, HazardsByRisk,
      HazardsByArea, HazardsHeatmap, HazVsIncByDept, Kpis]"

definition catch_block :: "exn \<Rightarrow> dashboard \<Rightarrow> dashboard" where
  "catch_block e st =
     (let msg = message_or e ''Failed to load charts'';
          st1 = fold (\<lambda>k. set_slot k (\<lambda>s. s\<lparr>loading := False, error := Some msg\<rparr>)) failure_slots st
      in st1\<lparr>toasts := toasts st1 @ [(''Error loading data'', msg)]\<rparr>)"

text \<open>
  What \<^verbatim>\<open>refreshAll\<close> does once its requests have settled as \<open>os\<close>, on the state
  it finds at that moment.
\<close>

definition settle :: "(json \<Rightarrow> jsnum) \<Rightarrow> (json \<Rightarrow> string) \<Rightarrow> nat \<Rightarrow> outcome list \<Rightarrow> dashboard \<Rightarrow> dashboard" where
  "settle coerce render now os st =
     (case Promise_all os of
        Inl e \<Rightarrow> catch_block e st
      | Inr rs \<Rightarrow>
          (case try_block coerce render now rs st of
             (st1, Some e) \<Rightarrow> catch_block e st1
           | (st1, None) \<Rightarrow> st1))"

text \<open>
  \<^verbatim>\<open>refreshAll\<close> suspends at \<^verbatim>\<open>await Promise.all\<close> (line 220), and nothing keeps a
  second call from starting meanwhile (the Refresh button is never disabled, and an
  upload calls \<^verbatim>\<open>refreshAll\<close> too). So between the loading marks of a call and its
  settlement, other calls can write their loading marks and settle.
\<close>

datatype refresh_event = Marks | Settles nat "outcome list"

fun refresh_step :: "(json \<Rightarrow> jsnum) \<Rightarrow> (json \<Rightarrow> string) \<Rightarrow> refresh_event \<Rightarrow> dashboard \<Rightarrow> dashboard" where
  "refresh_step coerce render Marks st = mark_loading st"
| "refresh_step coerce render (Settles now os) st = settle coerce render now os st"

definition refresh_run :: "(json \<Rightarrow> jsnum) \<Rightarrow> (json \<Rightarrow> string) \<Rightarrow> refresh_event list \<Rightarrow> dashboard \<Rightarrow> dashboard" where
  "refresh_run coerce render evs st = fold (refresh_step coerce render) evs st"

text \<open>
  One call of \<^verbatim>\<open>refreshAll\<close>: the loading marks, then what other calls do while this
  one awaits its requests (\<open>during\<close>; empty when no other call is in flight), then
  the settlement of this call's requests as \<open>os\<close>.
\<close>

definition refreshAll :: "(json \<Rightarrow> jsnum) \<Rightarrow> (json \<Rightarrow> string) \<Rightarrow> nat \<Rightarrow> outcome list \<Rightarrow> refresh_event list \<Rightarrow> dashboard \<Rightarrow> dashboard" where
  "refreshAll coerce render now os during st =
     settle coerce render now os (refresh_run coerce render during (mark_loading st))"

section \<open>Strings\<close>

text \<open>
  The white space and line terminators that \<^verbatim>\<open>trim\<close> removes, among the code points a
  \<open>char\<close> holds: tab, line feed, vertical tab, form feed, carriage return, space and
  the no-break space U+00A0.
\<close>

definition is_space :: "char \<Rightarrow> bool" where
  "is_space c = ((of_char c :: nat) \<in> {9, 10, 11, 12, 13, 32, 160})"

definition trim :: "string \<Rightarrow> string" where
  "trim s = rev (dropWhile is_space (rev (dropWhile is_space s)))"

definition startsWith :: "string \<Rightarrow> string \<Rightarrow> bool" where
  "startsWith s p = (take (length p) s = p)"

text \<open>\<^verbatim>\<open>s.indexOf(c)\<close> for a single character; \<open>None\<close> stands for \<^verbatim>\<open>-1\<close>.\<close>

fun indexOf :: "string \<Rightarrow> char \<Rightarrow> nat option" where
  "indexOf [] c = None"
| "indexOf (x # xs) c = (if x = c then Some 0 else map_option Suc (indexOf xs c))"

text \<open>
  \<^verbatim>\<open>s.lastIndexOf(p)\<close>: the search runs from the end of \<open>s\<close> towards its start and
  returns the first position at which \<open>p\<close> is found.
\<close>

definition occurs_at :: "string \<Rightarrow> string \<Rightarrow> nat \<Rightarrow> bool" where
  "occurs_at s p i = (i + length p \<le> length s \<and> take (length p) (drop i s) = p)"

fun lastIndexOf_from :: "string \<Rightarrow> string \<Rightarrow> nat \<Rightarrow> nat option" where
  "lastIndexOf_from s p 0 = (if occurs_at s p 0 then Some 0 else None)"
| "lastIndexOf_from s p (Suc i) = (if occurs_at s p (Suc i) then Some (Suc i) else lastIndexOf_from s p i)"

definition lastIndexOf :: "string \<Rightarrow> string \<Rightarrow> nat option" where
  "lastIndexOf s p = lastIndexOf_from s p (length s)"

definition newline :: char where
  "newline = CHR 0x0A"

section \<open>Insights: accumulation and display\<close>

text \<open>
  \<^verbatim>\<open>InsightsView\<close>, lines 1356 to 1363: the markdown body shown for the accumulated
  insights text.
\<close>

definition InsightsView_body :: "string \<Rightarrow> string" where
  "InsightsView_body text =
     (case lastIndexOf text ''[[META]]'' of
        Some idx \<Rightarrow> take idx text
      | None \<Rightarrow> text)"

text \<open>
  \<^verbatim>\<open>fetchInsights\<close>, lines 1278 to 1282, on the \<^verbatim>\<open>insights\<close> state: a chunk read from the
  body appends its decoded text, and the \<^verbatim>\<open>catch\<close> block appends the annotation
  \<^verbatim>\<open>`\n[insights error] ${e?.message || String(e)}`\<close>. \<open>shown\<close> is \<^verbatim>\<open>String(e)\<close>.
\<close>

definition insights_chunk :: "string \<Rightarrow> string \<Rightarrow> string" where
  "insights_chunk decoded s = s @ decoded"

text \<open>
  The \<^verbatim>\<open>insights\<close> state after \<^verbatim>\<open>setInsights("")\<close> (line 1259) and the chunks read, given
  by their decoded texts in order.
\<close>

definition insights_stream :: "string list \<Rightarrow> string" where
  "insights_stream decoded = fold insights_chunk decoded []"

definition insights_catch :: "exn \<Rightarrow> string \<Rightarrow> string \<Rightarrow> string" where
  "insights_catch e shown s = s @ [newline] @ ''[insights error] '' @ message_or e shown"

section \<open>The chat stream: frame decoding\<close>

text \<open>
  \<^verbatim>\<open>JSON.parse\<close> is the runtime's and is a parameter \<open>parse\<close> of the decoder: \<open>None\<close>
  when it throws \<^verbatim>\<open>SyntaxError\<close>.

  \<^verbatim>\<open>typeof obj?.content === "string" ? obj.content : ""\<close>
\<close>

definition piece_of :: "json \<Rightarrow> string" where
  "piece_of obj = (case opt_prop obj ''content'' of JStr s \<Rightarrow> s | _ \<Rightarrow> [])"

text \<open>
  Lines 234 to 249, what one extracted line does: the sentinel leaves the inner loop,
  a payload with a non-empty \<^verbatim>\<open>content\<close> string contributes that piece, and anything
  else (no \<^verbatim>\<open>data:\<close> prefix, malformed JSON, no content) contributes nothing.
\<close>

datatype line_effect = Done | Piece string | Nothing

definition handle_line :: "(string \<Rightarrow> json option) \<Rightarrow> string \<Rightarrow> line_effect" where
  "handle_line parse raw =
     (let line = trim raw
      in if startsWith line ''data:'' then
           let payload = trim (drop 5 line)
           in if payload = ''[DONE]'' then Done
              else (case parse payload of
                      None \<Rightarrow> Nothing
                    | Some obj \<Rightarrow> (let piece = piece_of obj in if piece \<noteq> [] then Piece piece else Nothing))
         else Nothing)"

text \<open>
  Lines 232 to 251, the inner \<^verbatim>\<open>while (nl !== -1)\<close> loop on the buffer: the pieces
  decoded so far (in order) and the buffer it leaves.
\<close>

function process_lines :: "(string \<Rightarrow> json option) \<Rightarrow> string \<Rightarrow> string list \<Rightarrow> string list \<times> string" where
  "process_lines parse buffer pieces =
     (case indexOf buffer newline of
        None \<Rightarrow> (pieces, buffer)
      | Some nl \<Rightarrow>
          (case handle_line parse (take nl buffer) of
             Done \<Rightarrow> (pieces, drop (Suc nl) buffer)
           | Piece piece \<Rightarrow> process_lines parse (drop (Suc nl) buffer) (pieces @ [piece])
           | Nothing \<Rightarrow> process_lines parse (drop (Suc nl) buffer) pieces))"
  by pat_completeness auto
termination
proof (relation "measure (\<lambda>(parse, buffer, pieces). length buffer)")
  have found: "indexOf s c = Some n \<Longrightarrow> n < length s" for s c n
    by (induction s arbitrary: n) (auto split: if_splits)
  show "wf (measure (\<lambda>(parse, buffer, pieces). length buffer))"
    by simp
  show "((parse, drop (Suc nl) buffer, pieces @ [piece]), (parse, buffer, pieces))
          \<in> measure (\<lambda>(parse, buffer, pieces). length buffer)"
    if "indexOf buffer newline = Some nl"
    for parse :: "string \<Rightarrow> json option" and buffer nl and pieces :: "string list" and piece
    using found [OF that] by simp
  show "((parse, drop (Suc nl) buffer, pieces), (parse, buffer, pieces))
          \<in> measure (\<lambda>(parse, buffer, pieces). length buffer)"
    if "indexOf buffer newline = Some nl"
    for parse :: "string \<Rightarrow> json option" and buffer nl and pieces :: "string list"
    using found [OF that] by simp
qed

declare process_lines.simps [simp del]

text \<open>
  Line 231 and the loop after it: one chunk read from the stream is appended to the
  buffer, and the lines now complete are processed.
\<close>

definition feed :: "(string \<Rightarrow> json option) \<Rightarrow> string \<Rightarrow> string \<Rightarrow> string list \<times> string" where
  "feed parse buffer chunk = process_lines parse (buffer @ chunk) []"






section \<open>The chat widget: sending a question and consuming the stream\<close>

datatype role = User | Assistant | System

text \<open>A \<^verbatim>\<open>ChatMessage\<close>; the optional \<^verbatim>\<open>meta\<close>, which \<^verbatim>\<open>sendQuestion\<close> never writes, is left out.\<close>

record ChatMessage =
  id_m :: string
  role :: role
  content :: string

text \<open>
  The state of \<^verbatim>\<open>ChatWidget\<close> that \<^verbatim>\<open>sendQuestion\<close> touches: \<^verbatim>\<open>messages\<close>,
  \<^verbatim>\<open>input\<close>, \<^verbatim>\<open>loading\<close>, and the questions sent to the chat endpoint with
  \<^verbatim>\<open>fetch\<close> so far.
\<close>

record chat =
  messages :: "ChatMessage list"
  input :: string
  loading_chat :: bool
  requests :: "string list"

text \<open>
  Lines 184 to 199, \<^verbatim>\<open>sendQuestion\<close> up to the request: \<open>userId\<close> and \<open>assistantId\<close>
  are the identifiers built from \<^verbatim>\<open>Date.now()\<close> and \<^verbatim>\<open>Math.random()\<close>.
\<close>

definition sendQuestion_start :: "string \<Rightarrow> string \<Rightarrow> string \<Rightarrow> chat \<Rightarrow> chat" where
  "sendQuestion_start userId assistantId q st =
     (let question = trim q
      in if question = [] \<or> loading_chat st then st
         else st\<lparr>messages := messages st @
                      [\<lparr>id_m = userId, role = User, content = question\<rparr>,
                       \<lparr>id_m = assistantId, role = Assistant, content = []\<rparr>],
                  input := [],
                  loading_chat := True,
                  requests := requests st @ [question]\<rparr>)"

text \<open>
  One call of \<^verbatim>\<open>sendQuestion\<close> whose response has a body reader: the widget state
  together with the locals of the call (\<^verbatim>\<open>assistantId, textAccum, buffer, scheduled\<close>).
  \<open>queued\<close> counts the callbacks handed to \<^verbatim>\<open>requestAnimationFrame\<close> and not yet run,
  \<open>reading\<close> tells that the outer loop still awaits \<^verbatim>\<open>reader.read()\<close>, and \<open>flushed\<close>
  records, in order, the values the scheduler's callback has committed.
\<close>

record session = chat +
  assistantId :: string
  textAccum :: string
  buffer :: string
  scheduled :: bool
  queued :: nat
  reading :: bool
  flushed :: "string list"

text \<open>Lines 204 to 207 and 227: the locals when the loop is entered.\<close>

definition open_stream :: "string \<Rightarrow> chat \<Rightarrow> session" where
  "open_stream aid c =
     \<lparr>messages = messages c, input = input c, loading_chat = loading_chat c, requests = requests c,
      assistantId = aid, textAccum = [], buffer = [], scheduled = False, queued = 0,
      reading = True, flushed = []\<rparr>"

text \<open>\<^verbatim>\<open>m.map((msg) => (msg.id === assistantId ? { ...msg, content: textAccum } : msg))\<close>\<close>

definition set_content :: "string \<Rightarrow> string \<Rightarrow> ChatMessage list \<Rightarrow> ChatMessage list" where
  "set_content aid txt ms = map (\<lambda>msg. if id_m msg = aid then msg\<lparr>content := txt\<rparr> else msg) ms"

text \<open>Lines 211 to 214, the callback \<^verbatim>\<open>cb\<close>, and lines 208 to 221, \<^verbatim>\<open>scheduleFlush\<close>.\<close>

definition cb :: "session \<Rightarrow> session" where
  "cb st = st\<lparr>scheduled := False,
              messages := set_content (assistantId st) (textAccum st) (messages st),
              flushed := flushed st @ [textAccum st]\<rparr>"

definition scheduleFlush :: "session \<Rightarrow> session" where
  "scheduleFlush st = (if \<not> scheduled st then st\<lparr>scheduled := True, queued := Suc (queued st)\<rparr> else st)"

text \<open>Lines 244 to 247: a decoded piece is appended and a flush is scheduled.\<close>

definition on_piece :: "string \<Rightarrow> session \<Rightarrow> session" where
  "on_piece piece st = scheduleFlush (st\<lparr>textAccum := textAccum st @ piece\<rparr>)"

text \<open>Lines 229 to 251: a chunk has been read.\<close>

definition on_read :: "(string \<Rightarrow> json option) \<Rightarrow> string \<Rightarrow> session \<Rightarrow> session" where
  "on_read parse chunk st =
     (case feed parse (buffer st) chunk of
        (pieces, b) \<Rightarrow> fold on_piece pieces (st\<lparr>buffer := b\<rparr>))"

text \<open>Lines 230, 253 and 258: the stream has ended.\<close>

definition on_end :: "session \<Rightarrow> session" where
  "on_end st = st\<lparr>messages := set_content (assistantId st) (textAccum st) (messages st),
                  loading_chat := False, reading := False\<rparr>"

text \<open>Lines 255 to 258: \<^verbatim>\<open>reader.read()\<close> has rejected with \<open>err\<close>.\<close>

definition on_read_error :: "exn \<Rightarrow> session \<Rightarrow> session" where
  "on_read_error err st =
     st\<lparr>messages :=
          map (\<lambda>msg. if role msg = Assistant \<and> content msg = []
                      then msg\<lparr>content := ''Error: '' @ message_or err ''Something went wrong''\<rparr>
                      else msg)
              (messages st),
        loading_chat := False, reading := False\<rparr>"

text \<open>An animation frame: the runtime runs the queued callbacks.\<close>

definition frame :: "session \<Rightarrow> session" where
  "frame st = ((cb ^^ queued st) st)\<lparr>queued := 0\<rparr>"

text \<open>
  What can happen to a session: the reader delivers a chunk, ends or fails (while the
  loop is reading), and the display comes to its next frame.
\<close>

datatype event = Read string | EndOfStream | ReadFailed exn | Frame

fun step :: "(string \<Rightarrow> json option) \<Rightarrow> event \<Rightarrow> session \<Rightarrow> session" where
  "step parse (Read chunk) st = (if reading st then on_read parse chunk st else st)"
| "step parse EndOfStream st = (if reading st then on_end st else st)"
| "step parse (ReadFailed err) st = (if reading st then on_read_error err st else st)"
| "step parse Frame st = frame st"

definition run :: "(string \<Rightarrow> json option) \<Rightarrow> event list \<Rightarrow> session \<Rightarrow> session" where
  "run parse evs st = fold (step parse) evs st"


text \<open>
  What holds in every state of a session for the assistant message \<open>aid\<close> on the chat
  \<open>c\<close>: the locals name that message; a callback is queued exactly when a flush is
  scheduled, and then some text has been accumulated; when none is scheduled, the last
  value committed is the accumulated text; the identifiers and roles of the messages
  are those of \<open>c\<close>.
\<close>

definition session_inv :: "string \<Rightarrow> chat \<Rightarrow> session \<Rightarrow> bool" where
  "session_inv aid c st \<longleftrightarrow>
     assistantId st = aid
   \<and> queued st = (if scheduled st then Suc 0 else 0)
   \<and> (scheduled st \<longrightarrow> textAccum st \<noteq> [])
   \<and> (scheduled st \<or> textAccum st = last ([] # flushed st))
   \<and> map id_m (messages st) = map id_m (messages c)
   \<and> map role (messages st) = map role (messages c)"

text \<open>While the loop reads and no flush is scheduled, the message \<open>aid\<close> shows the accumulated text.\<close>

definition shown_inv :: "string \<Rightarrow> session \<Rightarrow> bool" where
  "shown_inv aid st \<longleftrightarrow>
     (reading st \<and> \<not> scheduled st \<longrightarrow> (\<forall>m \<in> set (messages st). id_m m = aid \<longrightarrow> content m = textAccum st))"

section \<open>Concrete inputs used in the examples\<close>

text \<open>Conversions that are never consulted on the bodies below.\<close>

fun no_coerce :: "json \<Rightarrow> jsnum" where
  "no_coerce v = NaN"

fun no_render :: "json \<Rightarrow> string" where
  "no_render v = []"

text \<open>A refresh in which all seventeen bodies are \<^verbatim>\<open>null\<close>, and one in which the fourth request rejects first.\<close>

definition all_fulfilled :: "outcome list" where
  "all_fulfilled =
     [(1, Inr JNull), (2, Inr JNull), (3, Inr JNull), (4, Inr JNull), (5, Inr JNull), (6, Inr JNull),
      (7, Inr JNull), (8, Inr JNull), (9, Inr JNull), (10, Inr JNull), (11, Inr JNull), (12, Inr JNull),
      (13, Inr JNull), (14, Inr JNull), (15, Inr JNull), (16, Inr JNull), (17, Inr JNull)]"

definition one_rejected :: "outcome list" where
  "one_rejected =
     [(1, Inr JNull), (2, Inr JNull), (3, Inr JNull), (0, Inl (Error ''boom'')), (5, Inr JNull), (6, Inr JNull),
      (7, Inr JNull), (8, Inr JNull), (9, Inr JNull), (10, Inr JNull), (11, Inr JNull), (12, Inr JNull),
      (13, Inr JNull), (14, Inr JNull), (15, Inr JNull), (16, Inr JNull), (17, Inr JNull)]"

text \<open>A heat matrix whose source supplies \<^verbatim>\<open>min: 0\<close> and \<^verbatim>\<open>max: 10\<close>.\<close>

definition heat_zero_min :: json where
  "heat_zero_min =
     JObj [(''x_labels'', JArr [JStr ''a'', JStr ''b'']), (''y_labels'', JArr [JStr ''r'']),
           (''values'', JArr [JArr [JNum 2, JNum 3]]), (''min'', JNum 0), (''max'', JNum 10)]"

text \<open>
  The payloads of the stream examples with the values \<^verbatim>\<open>JSON.parse\<close> gives for them; a
  parser that agrees with \<^verbatim>\<open>JSON.parse\<close> on these payloads.
\<close>

definition payload_ab :: string where
  \<open>payload_ab = ''{"content":"ab"}''\<close>

definition payload_c :: string where
  \<open>payload_c = ''{"content":"c"}''\<close>

definition parse_sample :: "string \<Rightarrow> json option" where
  "parse_sample s =
     (if s = payload_ab then Some (JObj [(''content'', JStr ''ab'')])
      else if s = payload_c then Some (JObj [(''content'', JStr ''c'')])
      else None)"

definition chunk_1 :: string where
  "chunk_1 = ''data: '' @ payload_ab @ [newline] @ ''da''"




definition chat_0 :: chat where
  "chat_0 =
     \<lparr>messages = [\<lparr>id_m = ''u_1'', role = User, content = ''Total incidents''\<rparr>,
                  \<lparr>id_m = ''a_1'', role = Assistant, content = []\<rparr>],
      input = [], loading_chat = True, requests = [''Total incidents'']\<rparr>"

section \<open>The normalizers on absent, failed and heat-matrix input\<close>

text \<open>
  Claim C8. Each of the four normalizers, applied to \<^verbatim>\<open>null\<close>, to \<^verbatim>\<open>undefined\<close> or to a
  value whose \<^verbatim>\<open>error\<close> property is set (truthy, as in \<^verbatim>\<open>{error: "x"}\<close>), returns the empty
  canonical shape: the empty sequence, or the heat matrix with no labels, no values and
  \<open>min = max = 0\<close>. It returns: the result is never a thrown value.
\<close>

theorem normalizers_empty_on_absent_or_error:
  assumes "j = JNull \<or> j = JUndef \<or> truthy (get_prop j ''error'')"
  shows "parseCategoryChart coerce j = Inr []
       \<and> parseStackedChart coerce render j = Inr []
       \<and> parseMonthlyTrends coerce render j = Inr []
       \<and> parseHeatmap coerce render j =
           \<lparr>x_labels = [], y_labels = [], values_hm = [], min_hm = Num 0, max_hm = Num 0, title = None\<rparr>"
proof -
  from assms have "absent_or_error j"
    by (auto simp: absent_or_error_def)
  then show ?thesis
    by (simp add: parseCategoryChart_def parseStackedChart_def parseMonthlyTrends_def parseHeatmap_def)
qed

text \<open>The three inputs the claim names, for C8.\<close>

theorem normalizers_empty_on_absent_or_error_witness:
  "parseCategoryChart no_coerce (JObj [(''error'', JStr ''x'')]) = Inr []
   \<and> parseStackedChart no_coerce no_render (JObj [(''error'', JStr ''x'')]) = Inr []
   \<and> parseMonthlyTrends no_coerce no_render (JObj [(''error'', JStr ''x'')]) = Inr []
   \<and> parseHeatmap no_coerce no_render (JObj [(''error'', JStr ''x'')]) =
       \<lparr>x_labels = [], y_labels = [], values_hm = [], min_hm = Num 0, max_hm = Num 0, title = None\<rparr>
   \<and> parseCategoryChart no_coerce JNull = Inr []
   \<and> parseHeatmap no_coerce no_render JUndef =
       \<lparr>x_labels = [], y_labels = [], values_hm = [], min_hm = Num 0, max_hm = Num 0, title = None\<rparr>"
  using normalizers_empty_on_absent_or_error [of "JObj [(''error'', JStr ''x'')]" no_coerce no_render]
        normalizers_empty_on_absent_or_error [of JNull no_coerce no_render]
        normalizers_empty_on_absent_or_error [of JUndef no_coerce no_render]
  by simp

text \<open>
  Claim C7. A heat matrix whose source supplies the numbers \<^verbatim>\<open>min: 0\<close> and \<^verbatim>\<open>max: 10\<close>
  with the values \<^verbatim>\<open>[[2, 3]]\<close>: the test \<^verbatim>\<open>!json.min || !json.max\<close> takes the supplied
  zero for an absent bound, and both bounds are recomputed from the values, so the
  result has \<open>min = 2\<close> and \<open>max = 3\<close> where the claim has the supplied \<open>0\<close> and \<open>10\<close>.
\<close>

theorem parseHeatmap_zero_min_recomputed:
  "min_hm (parseHeatmap coerce render heat_zero_min) = Num 2
   \<and> max_hm (parseHeatmap coerce render heat_zero_min) = Num 3"
  by (simp add: parseHeatmap_def heat_zero_min_def absent_or_error_def or_else_def Math_min_def Math_max_def)

text \<open>The same input with the fixed conversions, for C7.\<close>

theorem parseHeatmap_zero_min_recomputed_witness:
  "min_hm (parseHeatmap no_coerce no_render heat_zero_min) = Num 2
   \<and> max_hm (parseHeatmap no_coerce no_render heat_zero_min) = Num 3"
  using parseHeatmap_zero_min_recomputed [of no_coerce no_render] by simp

text \<open>
  Supplied bounds that are both non-zero are used unchanged, and the example of the
  specification, with no bounds supplied, derives them from the values.
\<close>

lemma parseHeatmap_supplied:
  assumes "\<not> absent_or_error j" "get_prop j ''min'' = JNum a" "get_prop j ''max'' = JNum b" "a \<noteq> 0" "b \<noteq> 0"
  shows "min_hm (parseHeatmap coerce render j) = Num a \<and> max_hm (parseHeatmap coerce render j) = Num b"
  using assms by (simp add: parseHeatmap_def Let_def)

lemma parseHeatmap_example:
  "min_hm (parseHeatmap coerce render (JObj [(''values'', JArr [JArr [JNum 1, JNum 2], JArr [JNum 3, JNum 4]])])) = Num 1
   \<and> max_hm (parseHeatmap coerce render (JObj [(''values'', JArr [JArr [JNum 1, JNum 2], JArr [JNum 3, JNum 4]])])) = Num 4"
  by (simp add: parseHeatmap_def absent_or_error_def or_else_def Math_min_def Math_max_def)

section \<open>Properties of the refresh cycle\<close>

lemma slots_set_slot: "slots (set_slot k f st) k' = (if k' = k then f (slots st k) else slots st k')"
  by (simp add: set_slot_def)

lemma slots_fold_set_slot:
  "distinct ks \<Longrightarrow>
   slots (fold (\<lambda>k. set_slot k f) ks st) k = (if k \<in> set ks then f (slots st k) else slots st k)"
proof (induction ks arbitrary: st)
  case Nil
  then show ?case by simp
next
  case (Cons a ks)
  then show ?case by (auto simp: slots_set_slot)
qed

lemma failure_slots_all: "k \<in> set failure_slots"
  by (cases k) (simp_all add: failure_slots_def)

lemma distinct_failure_slots: "distinct failure_slots"
  by (simp add: failure_slots_def)

lemma distinct_loading_slots: "distinct loading_slots"
  by (simp add: loading_slots_def)

lemma slots_catch_block:
  "slots (catch_block e st) k = (slots st k)\<lparr>loading := False, error := Some (message_or e ''Failed to load charts'')\<rparr>"
  by (simp add: catch_block_def Let_def slots_fold_set_slot distinct_failure_slots failure_slots_all)

lemma slots_mark_loading:
  "slots (mark_loading st) k =
     (if k \<in> set loading_slots then (slots st k)\<lparr>loading := True, error := None\<rparr> else slots st k)"
  by (simp add: mark_loading_def slots_fold_set_slot distinct_loading_slots)

lemma data_mark_loading: "data (slots (mark_loading st) k) = data (slots st k)"
  by (simp add: slots_mark_loading)

lemma earliest_rejection_mem:
  "earliest_rejection os best = Some (t, e) \<Longrightarrow> best = Some (t, e) \<or> (t, Inl e) \<in> set os"
  by (induction os best rule: earliest_rejection.induct) (auto split: if_splits)

lemma earliest_rejection_Some:
  "best \<noteq> None \<Longrightarrow> earliest_rejection os best \<noteq> None"
  by (induction os best rule: earliest_rejection.induct) auto

lemma earliest_rejection_exists:
  "(t, Inl e) \<in> set os \<Longrightarrow> earliest_rejection os best \<noteq> None"
  by (induction os best rule: earliest_rejection.induct) (auto simp: earliest_rejection_Some)

lemma Promise_all_rejects:
  assumes "(t, Inl e) \<in> set os"
  shows "\<exists>t' e'. (t', Inl e') \<in> set os \<and> Promise_all os = Inl e'"
proof -
  from assms obtain t' e' where r: "earliest_rejection os None = Some (t', e')"
    using earliest_rejection_exists [of t e os None] by auto
  then have "(t', Inl e') \<in> set os" using earliest_rejection_mem [OF r] by simp
  with r show ?thesis by (auto simp: Promise_all_def)
qed

lemma map_throwing_all2:
  "map_throwing f xs = Inr ys \<Longrightarrow> list_all2 (\<lambda>x y. f x = Inr y) xs ys"
proof (induction xs arbitrary: ys)
  case Nil
  then show ?case by simp
next
  case (Cons x xs)
  then show ?case by (auto split: sum.splits)
qed

lemma map_sum_Inr: "map_sum f g x = Inr y \<Longrightarrow> \<exists>z. x = Inr z \<and> y = g z"
  by (cases x) auto

lemma list_all2_map_eq: "list_all2 (\<lambda>x y. f x = g y) xs ys \<Longrightarrow> map f xs = map g ys"
  by (induction xs ys rule: list_all2_induct) auto

lemma parse_all_keys:
  assumes "parse_all coerce render rs = Inr parsed"
  shows "map fst parsed = map fst resources"
proof -
  let ?f = "\<lambda>((k, sh), i). map_sum id (\<lambda>p. (k, p)) (parse_as coerce render sh (destructure rs i))"
  have a: "list_all2 (\<lambda>x y. ?f x = Inr y) (indexed resources) parsed"
    using assms map_throwing_all2 [of ?f "indexed resources" parsed] by (simp add: parse_all_def)
  have "list_all2 (\<lambda>x y. fst (fst x) = fst y) (indexed resources) parsed"
    by (rule list_all2_mono [OF a]) (auto dest: map_sum_Inr)
  then have "map (\<lambda>x. fst (fst x)) (indexed resources) = map fst parsed"
    by (rule list_all2_map_eq)
  moreover have "map (\<lambda>x. fst (fst x)) (indexed resources) = map fst (map fst (indexed resources))"
    by simp
  moreover have "map fst (indexed resources) = resources"
    by (simp add: indexed_def)
  ultimately show ?thesis by simp
qed

lemma slots_commit: "slots (commit kp st) k = (if k = fst kp then \<lparr>loading = False, error = None, data = Some (snd kp)\<rparr> else slots st k)"
  by (simp add: commit_def slots_set_slot)

lemma slots_fold_commit_in:
  "k \<in> fst ` set kps \<Longrightarrow> \<exists>p. slots (fold commit kps st) k = \<lparr>loading = False, error = None, data = Some p\<rparr>"
proof (induction kps arbitrary: st rule: rev_induct)
  case Nil
  then show ?case by simp
next
  case (snoc kp kps)
  then show ?case by (cases "k = fst kp") (auto simp: slots_commit)
qed

lemma slots_fold_commit_out:
  "k \<notin> fst ` set kps \<Longrightarrow> slots (fold commit kps st) k = slots st k"
  by (induction kps arbitrary: st) (auto simp: slots_commit)

lemma resources_keys: "k \<noteq> Kpis \<Longrightarrow> k \<in> fst ` set resources"
  by (cases k) (simp_all add: resources_def)

lemma try_block_ok:
  assumes "try_block coerce render now rs st = (st1, None)"
  shows "\<exists>p. slots st1 k = \<lparr>loading = False, error = None, data = Some p\<rparr>"
proof -
  from assms obtain parsed kpiData where
    p: "parse_all coerce render rs = Inr parsed" and
    st1: "st1 = (commit (Kpis, PKpi kpiData) (fold commit parsed st))\<lparr>lastUpdated := Some now\<rparr>"
    by (auto simp: try_block_def Let_def split: sum.splits)
  show ?thesis
  proof (cases "k = Kpis")
    case True
    then show ?thesis by (simp add: st1 slots_commit)
  next
    case False
    then have "k \<in> fst ` set parsed"
      using resources_keys [OF False] parse_all_keys [OF p] by (metis list.set_map)
    from slots_fold_commit_in [OF this] False show ?thesis
      by (simp add: st1 slots_commit)
  qed
qed

lemma settle_cases:
  "(\<forall>k. \<exists>p. slots (settle coerce render now os st) k = \<lparr>loading = False, error = None, data = Some p\<rparr>)
   \<or> (\<exists>e st1. settle coerce render now os st = catch_block e st1)"
  by (auto simp: settle_def split: sum.splits option.splits prod.splits dest: try_block_ok)

lemma settle_rejected:
  assumes "(t, Inl e) \<in> set os"
  shows "\<exists>t' e'. (t', Inl e') \<in> set os \<and> settle coerce render now os st = catch_block e' st"
proof -
  from Promise_all_rejects [OF assms] obtain t' e' where
    "(t', Inl e') \<in> set os" "Promise_all os = Inl e'" by blast
  then show ?thesis by (auto simp: settle_def intro!: exI [of _ t'] exI [of _ e'])
qed

text \<open>The loading marks reach exactly the slots listed in \<open>loading_slots\<close>.\<close>

lemma mark_loading_marks:
  "k \<in> set loading_slots \<Longrightarrow> loading (slots (mark_loading st) k) = True \<and> error (slots (mark_loading st) k) = None"
  by (simp add: slots_mark_loading)

lemma mark_loading_untouched:
  "k \<notin> set loading_slots \<Longrightarrow> slots (mark_loading st) k = slots st k"
  by (simp add: slots_mark_loading)

text \<open>A cycle never clears the data of a slot.\<close>

lemma data_fold_commit:
  "data (slots st k) \<noteq> None \<Longrightarrow> data (slots (fold commit kps st) k) \<noteq> None"
proof (cases "k \<in> fst ` set kps")
  case True
  from slots_fold_commit_in [OF True, of st] show ?thesis by auto
next
  case False
  assume "data (slots st k) \<noteq> None"
  with slots_fold_commit_out [OF False, of st] show ?thesis by simp
qed

lemma data_try_block:
  assumes "data (slots st k) \<noteq> None"
  shows "data (slots (fst (try_block coerce render now rs st)) k) \<noteq> None"
proof (cases "parse_all coerce render rs")
  case (Inl e)
  with assms show ?thesis by (simp add: try_block_def)
next
  case (Inr parsed)
  from data_fold_commit [OF assms, of parsed] Inr show ?thesis
    by (simp add: try_block_def Let_def slots_commit split: sum.splits)
qed

lemma data_settle:
  assumes "data (slots st k) \<noteq> None"
  shows "data (slots (settle coerce render now os st) k) \<noteq> None"
proof (cases "Promise_all os")
  case (Inl e)
  with assms show ?thesis by (simp add: settle_def slots_catch_block)
next
  case (Inr rs)
  obtain st1 thrown where t: "try_block coerce render now rs st = (st1, thrown)"
    by (cases "try_block coerce render now rs st")
  from data_try_block [OF assms, of coerce render now rs] t have "data (slots st1 k) \<noteq> None"
    by simp
  with Inr t show ?thesis
    by (cases thrown) (simp_all add: settle_def slots_catch_block)
qed

lemma data_refresh_run:
  "data (slots st k) \<noteq> None \<Longrightarrow> data (slots (refresh_run coerce render evs st) k) \<noteq> None"
  unfolding refresh_run_def
proof (induction evs arbitrary: st)
  case Nil
  then show ?case by simp
next
  case (Cons ev evs)
  have "data (slots (refresh_step coerce render ev st) k) \<noteq> None"
    using Cons.prems by (cases ev) (simp_all add: data_mark_loading data_settle)
  from Cons.IH [OF this] show ?case by simp
qed

text \<open>
  Claim C1, as the code has it. If one of the requests of a refresh cycle rejects, then
  every slot is committed with \<open>loading = false\<close> and with one and the same message, the
  message of a rejected request (or the fallback text when it has none). The data of
  every slot is left as it is at the moment the cycle settles: when no other cycle has
  been in flight meanwhile, that is the data the slot held before the cycle (\<^verbatim>\<open>null\<close>
  if it was \<^verbatim>\<open>null\<close>), and otherwise it is what the other cycles have left there. Data
  that a slot held before the cycle is never cleared. This holds for any number of
  requests and any earlier contents of the slots.
\<close>

theorem refreshAll_rejection_fails_every_slot:
  assumes "(t, Inl e) \<in> set os"
  shows "\<exists>t' e'. (t', Inl e') \<in> set os \<and>
           (\<forall>k. loading (slots (refreshAll coerce render now os during st) k) = False
              \<and> error (slots (refreshAll coerce render now os during st) k) = Some (message_or e' ''Failed to load charts'')
              \<and> data (slots (refreshAll coerce render now os during st) k)
                  = data (slots (refresh_run coerce render during (mark_loading st)) k)
              \<and> (during = [] \<longrightarrow> data (slots (refreshAll coerce render now os during st) k) = data (slots st k))
              \<and> (data (slots st k) \<noteq> None \<longrightarrow> data (slots (refreshAll coerce render now os during st) k) \<noteq> None))"
proof -
  define mid where "mid = refresh_run coerce render during (mark_loading st)"
  from settle_rejected [OF assms] obtain t' e' where
    m: "(t', Inl e') \<in> set os" and
    s: "settle coerce render now os mid = catch_block e' mid"
    by blast
  have r: "refreshAll coerce render now os during st = catch_block e' mid"
    by (simp add: refreshAll_def s flip: mid_def)
  have kept: "data (slots st k) \<noteq> None \<longrightarrow> data (slots mid k) \<noteq> None" for k
    unfolding mid_def
    using data_refresh_run [of "mark_loading st" k coerce render during]
    by (simp add: data_mark_loading)
  have seq: "during = [] \<longrightarrow> data (slots mid k) = data (slots st k)" for k
    by (simp add: mid_def refresh_run_def data_mark_loading)
  have "loading (slots (refreshAll coerce render now os during st) k) = False
              \<and> error (slots (refreshAll coerce render now os during st) k) = Some (message_or e' ''Failed to load charts'')
              \<and> data (slots (refreshAll coerce render now os during st) k)
                  = data (slots (refresh_run coerce render during (mark_loading st)) k)
              \<and> (during = [] \<longrightarrow> data (slots (refreshAll coerce render now os during st) k) = data (slots st k))
              \<and> (data (slots st k) \<noteq> None \<longrightarrow> data (slots (refreshAll coerce render now os during st) k) \<noteq> None)" for k
    unfolding r using kept [of k] seq [of k]
    by (simp add: slots_catch_block flip: mid_def)
  with m show ?thesis by blast
qed

text \<open>
  A first cycle, on the initial slots, in which one request rejects: with no other
  cycle in flight the data stays \<^verbatim>\<open>null\<close>; when another cycle starts and succeeds
  before the rejection, the slots keep the data of that cycle under the error.
\<close>

theorem refreshAll_rejection_fails_every_slot_witness:
  "(\<forall>k. loading (slots (refreshAll no_coerce no_render 1 one_rejected [] initial) k) = False
     \<and> error (slots (refreshAll no_coerce no_render 1 one_rejected [] initial) k) = Some ''boom''
     \<and> data (slots (refreshAll no_coerce no_render 1 one_rejected [] initial) k) = None)
   \<and> error (slots (refreshAll no_coerce no_render 1 one_rejected [Marks, Settles 2 all_fulfilled] initial) EntriesByCategory)
       = Some ''boom''
   \<and> data (slots (refreshAll no_coerce no_render 1 one_rejected [Marks, Settles 2 all_fulfilled] initial) EntriesByCategory)
       = Some (PSimple [])"
proof -
  have r: "(0, Inl (Error ''boom'')) \<in> set one_rejected"
    by (simp add: one_rejected_def)
  have only: "e' = Error ''boom''" if "(t', Inl e') \<in> set one_rejected" for t' e'
    using that by (auto simp: one_rejected_def)
  from refreshAll_rejection_fails_every_slot [OF r, of no_coerce no_render 1 "[]" initial]
  obtain t' e' where
    m: "(t', Inl e') \<in> set one_rejected" and
    a: "\<forall>k. loading (slots (refreshAll no_coerce no_render 1 one_rejected [] initial) k) = False
          \<and> error (slots (refreshAll no_coerce no_render 1 one_rejected [] initial) k) = Some (message_or e' ''Failed to load charts'')
          \<and> data (slots (refreshAll no_coerce no_render 1 one_rejected [] initial) k) = data (slots initial k)"
    by auto
  from only [OF m] have "message_or e' ''Failed to load charts'' = ''boom''"
    by simp
  with a have 1: "\<forall>k. loading (slots (refreshAll no_coerce no_render 1 one_rejected [] initial) k) = False
     \<and> error (slots (refreshAll no_coerce no_render 1 one_rejected [] initial) k) = Some ''boom''
     \<and> data (slots (refreshAll no_coerce no_render 1 one_rejected [] initial) k) = None"
    by (simp add: initial_def)
  have mid: "data (slots (refresh_run no_coerce no_render [Marks, Settles 2 all_fulfilled] (mark_loading initial)) EntriesByCategory)
      = Some (PSimple [])"
    by code_simp
  from refreshAll_rejection_fails_every_slot [OF r, of no_coerce no_render 1 "[Marks, Settles 2 all_fulfilled]" initial]
  obtain t'' e'' where
    m2: "(t'', Inl e'') \<in> set one_rejected" and
    b: "\<forall>k. error (slots (refreshAll no_coerce no_render 1 one_rejected [Marks, Settles 2 all_fulfilled] initial) k)
              = Some (message_or e'' ''Failed to load charts'')
          \<and> data (slots (refreshAll no_coerce no_render 1 one_rejected [Marks, Settles 2 all_fulfilled] initial) k)
              = data (slots (refresh_run no_coerce no_render [Marks, Settles 2 all_fulfilled] (mark_loading initial)) k)"
    by auto
  from only [OF m2] have "message_or e'' ''Failed to load charts'' = ''boom''"
    by simp
  with b mid have 2: "error (slots (refreshAll no_coerce no_render 1 one_rejected [Marks, Settles 2 all_fulfilled] initial) EntriesByCategory)
       = Some ''boom''
   \<and> data (slots (refreshAll no_coerce no_render 1 one_rejected [Marks, Settles 2 all_fulfilled] initial) EntriesByCategory)
       = Some (PSimple [])"
    by simp
  from 1 2 show ?thesis by blast
qed

text \<open>
  Against C1 as stated: after a cycle that succeeded, a cycle in which one request
  rejects leaves the data of the earlier cycle in the slot; the data is not \<^verbatim>\<open>null\<close>.
\<close>

theorem stale_data_counterexample:
  "data (slots (refreshAll no_coerce no_render 2 one_rejected []
                  (refreshAll no_coerce no_render 1 all_fulfilled [] initial)) EntriesByCategory)
     = Some (PSimple [])"
  by code_simp

text \<open>
  Claim C2, as the code has it. After every settled refresh cycle every slot has
  \<open>loading = false\<close>, and either every slot has no error and holds data (the cycle
  succeeded), or every slot carries one and the same error message (the cycle failed).
  So a settled slot always has data or an error; it may have both.
\<close>

theorem refreshAll_settled_slots:
  "(\<forall>k. \<exists>p. slots (refreshAll coerce render now os during st) k = \<lparr>loading = False, error = None, data = Some p\<rparr>)
   \<or> (\<exists>m. \<forall>k. loading (slots (refreshAll coerce render now os during st) k) = False
              \<and> error (slots (refreshAll coerce render now os during st) k) = Some m)"
proof -
  define mid where "mid = refresh_run coerce render during (mark_loading st)"
  from settle_cases [of coerce render now os mid]
  show ?thesis
  proof
    assume "\<forall>k. \<exists>p. slots (settle coerce render now os mid) k = \<lparr>loading = False, error = None, data = Some p\<rparr>"
    then show ?thesis by (simp add: refreshAll_def mid_def)
  next
    assume "\<exists>e st1. settle coerce render now os mid = catch_block e st1"
    then obtain e st1 where "settle coerce render now os mid = catch_block e st1"
      by blast
    then have "\<forall>k. loading (slots (refreshAll coerce render now os during st) k) = False
              \<and> error (slots (refreshAll coerce render now os during st) k) = Some (message_or e ''Failed to load charts'')"
      by (simp add: refreshAll_def mid_def slots_catch_block)
    then show ?thesis by blast
  qed
qed

text \<open>
  Against C2 as stated: a slot that holds data and an error at once, after a failed
  cycle that followed a successful one.
\<close>

theorem data_and_error_counterexample:
  "slots (refreshAll no_coerce no_render 2 one_rejected []
            (refreshAll no_coerce no_render 1 all_fulfilled [] initial)) Heatmap
     = \<lparr>loading = False, error = Some ''boom'',
        data = Some (PHeat \<lparr>x_labels = [], y_labels = [], values_hm = [], min_hm = Num 0, max_hm = Num 0, title = None\<rparr>)\<rparr>"
  by code_simp

text \<open>
  Claim C6. A failed first cycle leaves every slot with \<open>loading = false\<close> and the
  error. The loading marks of the next \<^verbatim>\<open>refreshAll\<close> do not reach the slots of
  hazards by risk, hazards by area, the hazards heat map and hazards versus incidents:
  they stay not loading, with the old error, where the claim has them marked loading.
\<close>

theorem mark_loading_skips_hazard_slots:
  "slots (mark_loading (refreshAll no_coerce no_render 1 one_rejected [] initial)) HazardsByRisk
      = \<lparr>loading = False, error = Some ''boom'', data = None\<rparr>
   \<and> slots (mark_loading (refreshAll no_coerce no_render 1 one_rejected [] initial)) HazardsByArea
      = \<lparr>loading = False, error = Some ''boom'', data = None\<rparr>
   \<and> slots (mark_loading (refreshAll no_coerce no_render 1 one_rejected [] initial)) HazardsHeatmap
      = \<lparr>loading = False, error = Some ''boom'', data = None\<rparr>
   \<and> slots (mark_loading (refreshAll no_coerce no_render 1 one_rejected [] initial)) HazVsIncByDept
      = \<lparr>loading = False, error = Some ''boom'', data = None\<rparr>"
  by code_simp

section \<open>Properties of the frame decoder\<close>


lemma indexOf_Some_less: "indexOf s c = Some n \<Longrightarrow> n < length s"
  by (induction s arbitrary: n) (auto split: if_splits)

lemma indexOf_append: "indexOf a c = Some n \<Longrightarrow> indexOf (a @ b) c = Some n"
  by (induction a arbitrary: n) (auto split: if_splits)

lemma process_lines_None:
  "indexOf buf newline = None \<Longrightarrow> process_lines parse buf pieces = (pieces, buf)"
  by (subst process_lines.simps) simp

lemma process_lines_Done:
  "indexOf buf newline = Some nl \<Longrightarrow> handle_line parse (take nl buf) = Done \<Longrightarrow>
   process_lines parse buf pieces = (pieces, drop (Suc nl) buf)"
  by (subst process_lines.simps) simp

lemma process_lines_Piece:
  "indexOf buf newline = Some nl \<Longrightarrow> handle_line parse (take nl buf) = Piece piece \<Longrightarrow>
   process_lines parse buf pieces = process_lines parse (drop (Suc nl) buf) (pieces @ [piece])"
  by (subst process_lines.simps) simp

lemma process_lines_Nothing:
  "indexOf buf newline = Some nl \<Longrightarrow> handle_line parse (take nl buf) = Nothing \<Longrightarrow>
   process_lines parse buf pieces = process_lines parse (drop (Suc nl) buf) pieces"
  by (subst process_lines.simps) simp
















section \<open>Properties of the insights view\<close>

lemma lastIndexOf_from_None:
  "lastIndexOf_from s p n = None \<longleftrightarrow> (\<forall>j\<le>n. \<not> occurs_at s p j)"
proof (induction n)
  case 0
  then show ?case by simp
next
  case (Suc n)
  then show ?case by (auto simp: le_Suc_eq)
qed

lemma lastIndexOf_from_Some:
  "lastIndexOf_from s p n = Some i \<longleftrightarrow>
     i \<le> n \<and> occurs_at s p i \<and> (\<forall>j. i < j \<and> j \<le> n \<longrightarrow> \<not> occurs_at s p j)"
proof (induction n)
  case 0
  then show ?case by auto
next
  case (Suc n)
  show ?case
  proof (cases "occurs_at s p (Suc n)")
    case True
    then show ?thesis
      by (auto simp: le_Suc_eq)
  next
    case False
    with Suc show ?thesis
      by (auto simp: le_Suc_eq)
  qed
qed

text \<open>
  Claim C9. When the accumulated insights text contains the marker \<^verbatim>\<open>[[META]]\<close>, the
  body shown is the text before the last occurrence of the marker: the marker and
  everything after it are stripped. When the marker does not occur, the text is shown
  unchanged.
\<close>

theorem InsightsView_strips_meta:
  "(text = pre @ ''[[META]]'' @ suf \<and> (\<forall>j. length pre < j \<longrightarrow> \<not> occurs_at text ''[[META]]'' j)
      \<longrightarrow> InsightsView_body text = pre)
   \<and> ((\<forall>j. \<not> occurs_at text ''[[META]]'' j) \<longrightarrow> InsightsView_body text = text)"
proof (intro conjI impI)
  assume a: "text = pre @ ''[[META]]'' @ suf \<and> (\<forall>j. length pre < j \<longrightarrow> \<not> occurs_at text ''[[META]]'' j)"
  then have eq: "text = pre @ ''[[META]]'' @ suf"
    and later: "\<forall>j. length pre < j \<longrightarrow> \<not> occurs_at text ''[[META]]'' j"
    by blast+
  have occ: "occurs_at text ''[[META]]'' (length pre)"
    by (simp add: occurs_at_def eq)
  have le: "length pre \<le> length text"
    by (simp add: eq)
  have "lastIndexOf_from text ''[[META]]'' (length text) = Some (length pre)"
    unfolding lastIndexOf_from_Some using occ le later by blast
  then have "InsightsView_body text = take (length pre) text"
    by (simp add: InsightsView_body_def lastIndexOf_def)
  then show "InsightsView_body text = pre"
    by (simp add: eq)
next
  assume "\<forall>j. \<not> occurs_at text ''[[META]]'' j"
  then have "lastIndexOf_from text ''[[META]]'' (length text) = None"
    by (simp add: lastIndexOf_from_None)
  then show "InsightsView_body text = text"
    by (simp add: InsightsView_body_def lastIndexOf_def)
qed

text \<open>A text with the marker and one without, for C9.\<close>

theorem InsightsView_strips_meta_witness:
  "InsightsView_body ''ab[[META]]c'' = ''ab'' \<and> InsightsView_body ''plain text'' = ''plain text''"
proof -
  have 1: "\<forall>j. length ''ab'' < j \<longrightarrow> \<not> occurs_at ''ab[[META]]c'' ''[[META]]'' j"
  proof (intro allI impI)
    fix j :: nat
    assume "length ''ab'' < j"
    then have "j = 3 \<or> 3 < j" by auto
    then show "\<not> occurs_at ''ab[[META]]c'' ''[[META]]'' j"
      by (auto simp: occurs_at_def)
  qed
  have 2: "\<forall>j. \<not> occurs_at ''plain text'' ''[[META]]'' j"
  proof
    fix j :: nat
    have "j = 0 \<or> j = 1 \<or> j = 2 \<or> 2 < j" by auto
    then show "\<not> occurs_at ''plain text'' ''[[META]]'' j"
      by (auto simp: occurs_at_def)
  qed
  from InsightsView_strips_meta [of "''ab[[META]]c''" "''ab''" "''c''"] 1
  have a: "InsightsView_body ''ab[[META]]c'' = ''ab''" by simp
  from InsightsView_strips_meta [of "''plain text''" "[]" "[]"] 2
  have b: "InsightsView_body ''plain text'' = ''plain text''" by blast
  from a b show ?thesis by simp
qed

section \<open>Properties of the render scheduler\<close>

lemma scheduleFlush_queue:
  "queued st = (if scheduled st then Suc 0 else 0) \<Longrightarrow>
   queued (scheduleFlush st) = (if scheduled (scheduleFlush st) then Suc 0 else 0)"
  by (simp add: scheduleFlush_def)

lemma on_piece_queue:
  "queued st = (if scheduled st then Suc 0 else 0) \<Longrightarrow>
   queued (on_piece piece st) = (if scheduled (on_piece piece st) then Suc 0 else 0)"
  by (simp add: on_piece_def scheduleFlush_def)

lemma fold_on_piece_queue:
  "queued st = (if scheduled st then Suc 0 else 0) \<Longrightarrow>
   queued (fold on_piece ps st) = (if scheduled (fold on_piece ps st) then Suc 0 else 0)"
proof (induction ps arbitrary: st)
  case Nil
  then show ?case by simp
next
  case (Cons p ps)
  from Cons.IH [OF on_piece_queue [OF Cons.prems]] show ?case by simp
qed

lemma on_read_queue:
  assumes "queued st = (if scheduled st then Suc 0 else 0)"
  shows "queued (on_read parse chunk st) = (if scheduled (on_read parse chunk st) then Suc 0 else 0)"
proof -
  obtain ps b where f: "feed parse (buffer st) chunk = (ps, b)"
    by (cases "feed parse (buffer st) chunk")
  have "queued (st\<lparr>buffer := b\<rparr>) = (if scheduled (st\<lparr>buffer := b\<rparr>) then Suc 0 else 0)"
    using assms by simp
  from fold_on_piece_queue [OF this] show ?thesis
    by (simp add: on_read_def f)
qed

lemma flushed_fold_on_piece: "flushed (fold on_piece ps st) = flushed st"
  by (induction ps arbitrary: st) (simp_all add: on_piece_def scheduleFlush_def)

lemma flushed_not_frame:
  "ev \<noteq> Frame \<Longrightarrow> flushed (step parse ev st) = flushed st"
  by (cases ev) (simp_all add: on_read_def on_end_def on_read_error_def flushed_fold_on_piece split: prod.splits)

text \<open>
  Claim C4. In every state a streaming session reaches, by any sequence of chunks,
  frames and the end or failure of the stream, at most one callback is queued. So a
  display frame commits at most one update, and the value it commits (to the log and
  to the assistant message) is the accumulated text at that moment.
\<close>

lemma fold_on_piece_fields:
  "assistantId (fold on_piece ps st) = assistantId st
   \<and> messages (fold on_piece ps st) = messages st
   \<and> flushed (fold on_piece ps st) = flushed st
   \<and> reading (fold on_piece ps st) = reading st
   \<and> buffer (fold on_piece ps st) = buffer st
   \<and> textAccum (fold on_piece ps st) = textAccum st @ concat ps
   \<and> scheduled (fold on_piece ps st) = (scheduled st \<or> ps \<noteq> [])"
proof (induction ps arbitrary: st)
  case Nil
  then show ?case by simp
next
  case (Cons p ps)
  have "assistantId (on_piece p st) = assistantId st
      \<and> messages (on_piece p st) = messages st
      \<and> flushed (on_piece p st) = flushed st
      \<and> reading (on_piece p st) = reading st
      \<and> buffer (on_piece p st) = buffer st
      \<and> textAccum (on_piece p st) = textAccum st @ p
      \<and> scheduled (on_piece p st)"
    by (simp add: on_piece_def scheduleFlush_def)
  with Cons.IH [of "on_piece p st"] show ?case by simp
qed

lemma pieces_nonempty:
  "[] \<notin> set pieces \<Longrightarrow> [] \<notin> set (fst (process_lines parse buf pieces))"
proof (induction parse buf pieces rule: process_lines.induct)
  case (1 parse buf pieces)
  show ?case
  proof (cases "indexOf buf newline")
    case None
    with "1.prems" show ?thesis by (simp add: process_lines_None)
  next
    case (Some nl)
    show ?thesis
    proof (cases "handle_line parse (take nl buf)")
      case Done
      with "1.prems" Some show ?thesis by (simp add: process_lines_Done)
    next
      case (Piece piece)
      then have "piece \<noteq> []"
        by (auto simp: handle_line_def Let_def split: if_splits option.splits)
      with "1.prems" have "[] \<notin> set (pieces @ [piece])" by simp
      from "1.IH"(1) [OF Some Piece this] show ?thesis
        by (simp add: process_lines_Piece [OF Some Piece])
    next
      case Nothing
      from "1.IH"(2) [OF Some Nothing "1.prems"] show ?thesis
        by (simp add: process_lines_Nothing [OF Some Nothing])
    qed
  qed
qed

lemma feed_pieces_nonempty: "[] \<notin> set (fst (feed parse buf chunk))"
  unfolding feed_def by (rule pieces_nonempty) simp

lemma concat_nonempty: "ps \<noteq> [] \<Longrightarrow> [] \<notin> set ps \<Longrightarrow> concat ps \<noteq> []"
  by (cases ps) auto

lemma set_content_maps:
  "map id_m (set_content aid txt ms) = map id_m ms \<and> map role (set_content aid txt ms) = map role ms
   \<and> length (set_content aid txt ms) = length ms"
  by (induction ms) (simp_all add: set_content_def)

lemma set_content_nth:
  "i < length ms \<Longrightarrow>
   set_content aid txt ms ! i = (if id_m (ms ! i) = aid then (ms ! i)\<lparr>content := txt\<rparr> else ms ! i)"
  by (simp add: set_content_def)

lemma frame_when_scheduled:
  "queued st = Suc 0 \<Longrightarrow> frame st = (cb st)\<lparr>queued := 0\<rparr>"
  by (simp add: frame_def)

lemma frame_when_idle:
  "queued st = 0 \<Longrightarrow> frame st = st"
  by (simp add: frame_def)

lemma on_read_fields:
  "assistantId (on_read parse chunk st) = assistantId st
   \<and> messages (on_read parse chunk st) = messages st
   \<and> flushed (on_read parse chunk st) = flushed st
   \<and> reading (on_read parse chunk st) = reading st
   \<and> buffer (on_read parse chunk st) = snd (feed parse (buffer st) chunk)
   \<and> textAccum (on_read parse chunk st) = textAccum st @ concat (fst (feed parse (buffer st) chunk))
   \<and> scheduled (on_read parse chunk st) = (scheduled st \<or> fst (feed parse (buffer st) chunk) \<noteq> [])"
proof -
  obtain ps b where f: "feed parse (buffer st) chunk = (ps, b)"
    by (cases "feed parse (buffer st) chunk")
  from fold_on_piece_fields [of ps "st\<lparr>buffer := b\<rparr>"] show ?thesis
    by (simp add: on_read_def f)
qed

lemma on_read_inv:
  assumes "session_inv aid c st"
  shows "session_inv aid c (on_read parse chunk st)"
proof -
  let ?ps = "fst (feed parse (buffer st) chunk)"
  note f = on_read_fields [of parse chunk st]
  have q: "queued (on_read parse chunk st) = (if scheduled (on_read parse chunk st) then Suc 0 else 0)"
    using assms on_read_queue [of st parse chunk] by (simp add: session_inv_def)
  have ne: "?ps \<noteq> [] \<Longrightarrow> concat ?ps \<noteq> []"
    using concat_nonempty [of ?ps] feed_pieces_nonempty [of parse "buffer st" chunk] by simp
  show ?thesis
    unfolding session_inv_def
    using assms f q ne by (cases "?ps = []") (simp_all add: session_inv_def)
qed

lemma frame_inv:
  assumes "session_inv aid c st"
  shows "session_inv aid c (frame st)"
proof (cases "scheduled st")
  case True
  with assms have "frame st = (cb st)\<lparr>queued := 0\<rparr>"
    by (simp add: frame_when_scheduled session_inv_def)
  with assms True show ?thesis
    by (simp add: session_inv_def cb_def set_content_maps)
next
  case False
  with assms have "frame st = st"
    by (simp add: frame_when_idle session_inv_def)
  with assms show ?thesis by simp
qed

lemma step_inv:
  assumes "session_inv aid c st"
  shows "session_inv aid c (step parse ev st)"
proof (cases ev)
  case (Read chunk)
  with assms on_read_inv [OF assms] show ?thesis by simp
next
  case EndOfStream
  with assms show ?thesis
    by (auto simp: session_inv_def on_end_def set_content_maps)
next
  case (ReadFailed err)
  have "map id_m (messages (on_read_error err st)) = map id_m (messages st)
      \<and> map role (messages (on_read_error err st)) = map role (messages st)"
    by (simp add: on_read_error_def comp_def)
  then show ?thesis
    using ReadFailed assms unfolding session_inv_def
    by (auto simp: on_read_error_def)
next
  case Frame
  with frame_inv [OF assms] show ?thesis by simp
qed

lemma run_inv:
  "session_inv aid c st \<Longrightarrow> session_inv aid c (run parse evs st)"
  unfolding run_def
proof (induction evs arbitrary: st)
  case Nil
  then show ?case by simp
next
  case (Cons ev evs)
  from Cons.IH [OF step_inv [OF Cons.prems]] show ?case by simp
qed

lemma open_stream_inv: "session_inv aid c (open_stream aid c)"
  by (simp add: session_inv_def open_stream_def)

lemma frame_keeps:
  assumes "queued st = (if scheduled st then Suc 0 else 0)"
  shows "textAccum (frame st) = textAccum st \<and> buffer (frame st) = buffer st \<and> reading (frame st) = reading st"
proof (cases "scheduled st")
  case True
  with assms show ?thesis by (simp add: frame_when_scheduled cb_def)
next
  case False
  with assms show ?thesis by (simp add: frame_when_idle)
qed

lemma run_Cons: "run parse (ev # evs) st = run parse evs (step parse ev st)"
  by (simp add: run_def)





section \<open>Transport errors and the send guard\<close>

lemma step_shown_inv:
  assumes inv: "session_inv aid c st" and sh: "shown_inv aid st"
  shows "shown_inv aid (step parse ev st)"
proof (cases ev)
  case (Read chunk)
  show ?thesis
  proof (cases "reading st")
    case True
    note f = on_read_fields [of parse chunk st]
    show ?thesis
    proof (cases "fst (feed parse (buffer st) chunk) = []")
      case True
      with f sh Read \<open>reading st\<close> show ?thesis
        by (simp add: shown_inv_def)
    next
      case False
      with f Read \<open>reading st\<close> show ?thesis
        by (simp add: shown_inv_def)
    qed
  next
    case False
    with sh Read show ?thesis by simp
  qed
next
  case EndOfStream
  then show ?thesis using sh by (simp add: shown_inv_def on_end_def)
next
  case (ReadFailed err)
  then show ?thesis using sh by (simp add: shown_inv_def on_read_error_def)
next
  case Frame
  show ?thesis
  proof (cases "scheduled st")
    case True
    with inv have "frame st = (cb st)\<lparr>queued := 0\<rparr>" and "assistantId st = aid"
      by (simp_all add: frame_when_scheduled session_inv_def)
    with Frame show ?thesis
      by (auto simp: shown_inv_def cb_def set_content_def)
  next
    case False
    with inv have "frame st = st"
      by (simp add: frame_when_idle session_inv_def)
    with Frame sh show ?thesis by simp
  qed
qed

lemma run_shown_inv:
  "session_inv aid c st \<Longrightarrow> shown_inv aid st \<Longrightarrow> shown_inv aid (run parse evs st)"
proof (induction evs arbitrary: st)
  case Nil
  then show ?case by (simp add: run_def)
next
  case (Cons ev evs)
  from Cons.IH [OF step_inv [OF Cons.prems(1)] step_shown_inv [OF Cons.prems]] show ?case
    by (simp add: run_Cons)
qed

lemma open_stream_shown_inv:
  "\<forall>m \<in> set (messages c). id_m m = aid \<longrightarrow> role m = Assistant \<and> content m = [] \<Longrightarrow>
   shown_inv aid (open_stream aid c)"
  by (simp add: shown_inv_def open_stream_def)

lemma insights_fold: "fold insights_chunk decoded s = s @ concat decoded"
  by (induction decoded arbitrary: s) (simp_all add: insights_chunk_def)

lemma InsightsView_no_marker:
  assumes "\<forall>j. \<not> occurs_at text ''[[META]]'' j"
  shows "InsightsView_body text = text"
proof -
  from assms have "lastIndexOf_from text ''[[META]]'' (length text) = None"
    by (simp add: lastIndexOf_from_None)
  then show ?thesis
    by (simp add: InsightsView_body_def lastIndexOf_def)
qed

lemma lastIndexOf_None: "lastIndexOf s p = None \<Longrightarrow> \<forall>j. \<not> occurs_at s p j"
proof
  fix j
  assume n: "lastIndexOf s p = None"
  show "\<not> occurs_at s p j"
  proof (cases "j \<le> length s")
    case True
    with n show ?thesis by (simp add: lastIndexOf_def lastIndexOf_from_None)
  next
    case False
    then show ?thesis by (simp add: occurs_at_def)
  qed
qed

text \<open>
  Claim C5, as the code has it. A chat turn whose assistant message starts empty, in
  any state \<open>st\<close> it reaches while reading: when the read fails, the accumulated text
  is kept and no message is added or removed; the \<^verbatim>\<open>catch\<close> block writes
  \<^verbatim>\<open>Error: <message>\<close> into the assistant messages that are still empty and leaves all
  others as they are; and once the next display frame has run, the assistant message
  of the turn reads exactly the accumulated text if any had been received, without an
  annotation, and \<^verbatim>\<open>Error: <message>\<close> only if none had. An insights request: the
  \<^verbatim>\<open>catch\<close> block appends \<^verbatim>\<open>\n[insights error] <message>\<close> to the text of the chunks read,
  and the view shows the whole of it when it holds no \<^verbatim>\<open>[[META]]\<close> marker.
\<close>

theorem stream_error_keeps_text:
  assumes "reading (run parse evs (open_stream aid c))"
    and "\<forall>m \<in> set (messages c). id_m m = aid \<longrightarrow> role m = Assistant \<and> content m = []"
  shows "let st = run parse evs (open_stream aid c);
             failed = step parse (ReadFailed err) st;
             settled = step parse Frame failed
         in textAccum failed = textAccum st
          \<and> textAccum settled = textAccum st
          \<and> length (messages failed) = length (messages st)
          \<and> (\<forall>i<length (messages st).
                messages failed ! i =
                  (if role (messages st ! i) = Assistant \<and> content (messages st ! i) = []
                   then (messages st ! i)\<lparr>content := ''Error: '' @ message_or err ''Something went wrong''\<rparr>
                   else messages st ! i))
          \<and> length (messages settled) = length (messages st)
          \<and> (\<forall>i<length (messages st). id_m (messages st ! i) = aid \<longrightarrow>
                content (messages settled ! i) =
                  (if textAccum st = [] then ''Error: '' @ message_or err ''Something went wrong''
                   else textAccum st))
          \<and> insights_catch e shown (insights_stream decoded)
               = concat decoded @ [newline] @ ''[insights error] '' @ message_or e shown
          \<and> ((\<forall>j. \<not> occurs_at (insights_catch e shown (insights_stream decoded)) ''[[META]]'' j)
               \<longrightarrow> InsightsView_body (insights_catch e shown (insights_stream decoded))
                    = insights_catch e shown (insights_stream decoded))"
proof -
  define st where "st = run parse evs (open_stream aid c)"
  define failed where "failed = step parse (ReadFailed err) st"
  define settled where "settled = step parse Frame failed"
  define errtext where "errtext = ''Error: '' @ message_or err ''Something went wrong''"
  have rd: "reading st"
    using assms(1) by (simp add: st_def)
  have inv: "session_inv aid c st"
    unfolding st_def by (rule run_inv [OF open_stream_inv])
  have sh: "shown_inv aid st"
    unfolding st_def by (rule run_shown_inv [OF open_stream_inv open_stream_shown_inv [OF assms(2)]])
  have f: "failed = on_read_error err st"
    using rd by (simp add: failed_def)
  have inv_f: "session_inv aid c failed"
    unfolding failed_def by (rule step_inv [OF inv])
  have q: "queued failed = (if scheduled failed then Suc 0 else 0)" and a: "assistantId failed = aid"
    using inv_f by (simp_all add: session_inv_def)
  have sf: "scheduled failed = scheduled st" and tf: "textAccum failed = textAccum st"
    and lf: "length (messages failed) = length (messages st)"
    by (simp_all add: f on_read_error_def)
  have nf: "\<forall>i<length (messages st).
                messages failed ! i =
                  (if role (messages st ! i) = Assistant \<and> content (messages st ! i) = []
                   then (messages st ! i)\<lparr>content := errtext\<rparr>
                   else messages st ! i)"
    by (simp add: f on_read_error_def errtext_def)
  have ts: "textAccum settled = textAccum st"
    using frame_keeps [OF q] tf by (simp add: settled_def)
  have ls: "length (messages settled) = length (messages st)"
    using q lf by (cases "scheduled failed")
      (simp_all add: settled_def frame_when_scheduled frame_when_idle cb_def set_content_maps)
  have ids: "map id_m (messages st) = map id_m (messages c)" and roles: "map role (messages st) = map role (messages c)"
    using inv by (simp_all add: session_inv_def)
  have final: "content (messages settled ! i) = (if textAccum st = [] then errtext else textAccum st)"
    if i: "i < length (messages st)" and id: "id_m (messages st ! i) = aid" for i
  proof (cases "scheduled st")
    case True
    with inv have ne: "textAccum st \<noteq> []"
      by (simp add: session_inv_def)
    from True sf q have fr: "settled = (cb failed)\<lparr>queued := 0\<rparr>"
      by (simp add: settled_def frame_when_scheduled)
    from nf i id have "id_m (messages failed ! i) = aid"
      by simp
    with fr a tf i lf ne show ?thesis
      by (simp add: cb_def set_content_nth)
  next
    case False
    with sf q have fr: "settled = failed"
      by (simp add: settled_def frame_when_idle)
    from i have mem: "messages st ! i \<in> set (messages st)"
      by simp
    from sh rd False mem id have ct: "content (messages st ! i) = textAccum st"
      by (simp add: shown_inv_def)
    from ids have len: "length (messages st) = length (messages c)"
      by (rule map_eq_imp_length_eq)
    with i have ic: "i < length (messages c)" by simp
    from ids i ic have "id_m (messages c ! i) = id_m (messages st ! i)"
      by (metis nth_map)
    moreover from roles i ic have "role (messages c ! i) = role (messages st ! i)"
      by (metis nth_map)
    moreover from ic have "messages c ! i \<in> set (messages c)"
      by simp
    ultimately have "role (messages st ! i) = Assistant"
      using assms(2) id by auto
    with nf i ct fr show ?thesis
      by simp
  qed
  have ins: "insights_catch e shown (insights_stream decoded)
               = concat decoded @ [newline] @ ''[insights error] '' @ message_or e shown"
    by (simp add: insights_catch_def insights_stream_def insights_fold)
  have vis: "(\<forall>j. \<not> occurs_at (insights_catch e shown (insights_stream decoded)) ''[[META]]'' j)
               \<longrightarrow> InsightsView_body (insights_catch e shown (insights_stream decoded))
                    = insights_catch e shown (insights_stream decoded)"
    using InsightsView_no_marker by blast
  from tf ts lf nf ls final ins vis show ?thesis
    unfolding Let_def st_def [symmetric] failed_def [symmetric] settled_def [symmetric] errtext_def [symmetric]
    by blast
qed

text \<open>
  A chat turn that showed \<open>ab\<close> before the read failed, one that fails before any
  text, and an insights request that fails after the chunks \<open>a\<close> and \<open>b\<close>, for C5.
\<close>

theorem stream_error_keeps_text_witness:
  "content (messages (step parse_sample Frame (step parse_sample (ReadFailed (Error ''boom''))
       (run parse_sample [Read chunk_1, Frame] (open_stream ''a_1'' chat_0)))) ! 1) = ''ab''
   \<and> content (messages (step parse_sample Frame (step parse_sample (ReadFailed (Error ''boom''))
       (run parse_sample [] (open_stream ''a_1'' chat_0)))) ! 1) = ''Error: boom''
   \<and> insights_catch (Error ''boom'') ''x'' (insights_stream [''a'', ''b''])
       = ''ab'' @ [newline] @ ''[insights error] boom''
   \<and> InsightsView_body (insights_catch (Error ''boom'') ''x'' (insights_stream [''a'', ''b'']))
       = insights_catch (Error ''boom'') ''x'' (insights_stream [''a'', ''b''])"
proof -
  define st where "st = run parse_sample [Read chunk_1, Frame] (open_stream ''a_1'' chat_0)"
  define st0 where "st0 = run parse_sample [] (open_stream ''a_1'' chat_0)"
  have c: "\<forall>m \<in> set (messages chat_0). id_m m = ''a_1'' \<longrightarrow> role m = Assistant \<and> content m = []"
    by (simp add: chat_0_def)
  have r: "reading (run parse_sample [Read chunk_1, Frame] (open_stream ''a_1'' chat_0))"
    by code_simp
  have r0: "reading (run parse_sample [] (open_stream ''a_1'' chat_0))"
    by code_simp
  have s: "1 < length (messages st)" "id_m (messages st ! 1) = ''a_1''" "textAccum st = ''ab''"
    unfolding st_def by code_simp+
  have s0: "1 < length (messages st0)" "id_m (messages st0 ! 1) = ''a_1''" "textAccum st0 = []"
    unfolding st0_def by code_simp+
  have nm: "\<forall>j. \<not> occurs_at (insights_catch (Error ''boom'') ''x'' (insights_stream [''a'', ''b''])) ''[[META]]'' j"
    by (rule lastIndexOf_None) code_simp
  note th = stream_error_keeps_text [OF r c, of "Error ''boom''" "Error ''boom''" "''x''" "[''a'', ''b'']",
      unfolded Let_def, folded st_def]
  note th0 = stream_error_keeps_text [OF r0 c, of "Error ''boom''" "Error ''boom''" "''x''" "[''a'', ''b'']",
      unfolded Let_def, folded st0_def]
  from th have "\<forall>i<length (messages st). id_m (messages st ! i) = ''a_1'' \<longrightarrow>
      content (messages (step parse_sample Frame (step parse_sample (ReadFailed (Error ''boom'')) st)) ! i) =
        (if textAccum st = [] then ''Error: '' @ message_or (Error ''boom'') ''Something went wrong'' else textAccum st)"
    by blast
  with s have 1: "content (messages (step parse_sample Frame (step parse_sample (ReadFailed (Error ''boom'')) st)) ! 1) = ''ab''"
    by simp
  from th0 have "\<forall>i<length (messages st0). id_m (messages st0 ! i) = ''a_1'' \<longrightarrow>
      content (messages (step parse_sample Frame (step parse_sample (ReadFailed (Error ''boom'')) st0)) ! i) =
        (if textAccum st0 = [] then ''Error: '' @ message_or (Error ''boom'') ''Something went wrong'' else textAccum st0)"
    by blast
  with s0 have 2: "content (messages (step parse_sample Frame (step parse_sample (ReadFailed (Error ''boom'')) st0)) ! 1) = ''Error: boom''"
    by simp
  from th have 3: "insights_catch (Error ''boom'') ''x'' (insights_stream [''a'', ''b''])
       = ''ab'' @ [newline] @ ''[insights error] boom''"
    by simp
  from th nm have 4: "InsightsView_body (insights_catch (Error ''boom'') ''x'' (insights_stream [''a'', ''b'']))
       = insights_catch (Error ''boom'') ''x'' (insights_stream [''a'', ''b''])"
    by blast
  from 1 2 3 4 show ?thesis
    unfolding st_def st0_def by (intro conjI)
qed

text \<open>
  Against C5 as stated. A chat turn receives the piece \<open>ab\<close>, a frame shows it, and
  the next read fails: the assistant message still reads \<open>ab\<close>, no error annotation
  has been appended. An insights request has received \<^verbatim>\<open>partial[[META]]{}\<close> when it
  fails: the annotation is appended after the marker, and the view, which cuts the
  text at the marker, shows \<open>partial\<close> without it.
\<close>

theorem stream_error_annotation_counterexample:
  "messages (run parse_sample [Read chunk_1, Frame, ReadFailed (Error ''boom'')] (open_stream ''a_1'' chat_0))
     = [\<lparr>id_m = ''u_1'', role = User, content = ''Total incidents''\<rparr>,
        \<lparr>id_m = ''a_1'', role = Assistant, content = ''ab''\<rparr>]
   \<and> InsightsView_body (insights_catch (Error ''boom'') ''x'' (insights_stream [''partial'', ''[[META]]{}'']))
     = ''partial''"
  by code_simp

text \<open>
  Claim C10. \<^verbatim>\<open>sendQuestion\<close> with a question that trims to the empty string, or while
  a request is in flight, changes nothing: the messages, the input field, the loading
  flag and the requests sent are those before the call.
\<close>

theorem sendQuestion_guard_noop:
  assumes "trim q = [] \<or> loading_chat st"
  shows "sendQuestion_start uid aid q st = st"
  using assms by (auto simp: sendQuestion_start_def Let_def)

text \<open>A blank question while idle, and a question while loading, for C10.\<close>

theorem sendQuestion_guard_noop_witness:
  "sendQuestion_start ''u_2'' ''a_2'' ''   '' (chat_0\<lparr>loading_chat := False\<rparr>) = chat_0\<lparr>loading_chat := False\<rparr>
   \<and> sendQuestion_start ''u_2'' ''a_2'' ''Total audits'' chat_0 = chat_0"
proof -
  have e: "trim ''   '' = []" by code_simp
  have l: "loading_chat chat_0" by code_simp
  from sendQuestion_guard_noop [of "''   ''" "chat_0\<lparr>loading_chat := False\<rparr>" "''u_2''" "''a_2''"] e
  have 1: "sendQuestion_start ''u_2'' ''a_2'' ''   '' (chat_0\<lparr>loading_chat := False\<rparr>) = chat_0\<lparr>loading_chat := False\<rparr>"
    by blast
  from sendQuestion_guard_noop [of "''Total audits''" chat_0 "''u_2''" "''a_2''"] l
  have 2: "sendQuestion_start ''u_2'' ''a_2'' ''Total audits'' chat_0 = chat_0"
    by blast
  from 1 2 show ?thesis by (intro conjI)
qed

text \<open>Outside the guard the question is sent.\<close>

lemma sendQuestion_start_sends:
  "trim q \<noteq> [] \<Longrightarrow> \<not> loading_chat st \<Longrightarrow>
   requests (sendQuestion_start uid aid q st) = requests st @ [trim q]
   \<and> loading_chat (sendQuestion_start uid aid q st)
   \<and> input (sendQuestion_start uid aid q st) = []"
  by (simp add: sendQuestion_start_def Let_def)

end
